theory Spec2Isabelle
  imports Main
begin

section \<open>Python values\<close>

text \<open>
  A Python \<open>str\<close> is modelled as a \<open>string\<close> whose characters are the code points
  0..255, so \<open>length\<close> is Python's \<open>len\<close> on such text.  The character classes below
  are those of \<open>str.isspace\<close>, and of \<open>\s\<close>, \<open>\d\<close> and \<open>\w\<close> of the \<open>re\<close> module on
  \<open>str\<close> patterns, restricted to these code points.
\<close>

datatype error = IndexError | KeyError | AttributeError

definition ebind :: "error + 'a \<Rightarrow> ('a \<Rightarrow> error + 'b) \<Rightarrow> error + 'b" where
  "ebind r f = (case r of Inl e \<Rightarrow> Inl e | Inr v \<Rightarrow> f v)"

definition py_get :: "'a list \<Rightarrow> int \<Rightarrow> error + 'a" where
  \<comment> \<open>the subscript \<open>xs[i]\<close>: \<open>xs[-k]\<close> is the \<open>k\<close>-th element from the end, and an
      index outside \<open>-len(xs) .. len(xs) - 1\<close> raises \<open>IndexError\<close>\<close>
  "py_get xs i =
     (if 0 \<le> i \<and> i < int (length xs) then Inr (xs ! nat i)
      else if i < 0 \<and> - i \<le> int (length xs) then Inr (xs ! (length xs - nat (- i)))
      else Inl IndexError)"

definition dict_get :: "('k \<rightharpoonup> 'v) \<Rightarrow> 'k \<Rightarrow> error + 'v" where
  \<comment> \<open>\<open>d[k]\<close>: a missing key raises.\<close>
  "dict_get d k = (case d k of None \<Rightarrow> Inl KeyError | Some v \<Rightarrow> Inr v)"

definition is_space :: "char \<Rightarrow> bool" where
  "is_space c \<longleftrightarrow> c \<in> set [CHR 0x09, CHR 0x0A, CHR 0x0B, CHR 0x0C, CHR 0x0D,
      CHR 0x1C, CHR 0x1D, CHR 0x1E, CHR 0x1F, CHR 0x20, CHR 0x85, CHR 0xA0]"

definition is_digit :: "char \<Rightarrow> bool" where
  "is_digit c \<longleftrightarrow> c \<in> set ''0123456789''"

definition is_word :: "char \<Rightarrow> bool" where
  \<comment> \<open>\<open>\w\<close>: alphanumeric or underscore; above ASCII these are the letters and the
      numeric signs of Latin-1 (not the multiplication and division signs).\<close>
  "is_word c \<longleftrightarrow> is_digit c \<or> c = CHR ''_''
      \<or> c \<in> set ''abcdefghijklmnopqrstuvwxyz'' \<or> c \<in> set ''ABCDEFGHIJKLMNOPQRSTUVWXYZ''
      \<or> c \<in> set [CHR 0xAA, CHR 0xB2, CHR 0xB3, CHR 0xB5, CHR 0xB9, CHR 0xBA, CHR 0xBC, CHR 0xBD, CHR 0xBE]
      \<or> (let n = (of_char c :: nat) in 192 \<le> n \<and> n \<noteq> 215 \<and> n \<noteq> 247)"

definition lower_char :: "char \<Rightarrow> char" where
  \<comment> \<open>case folding of the ASCII letters, which is all that a pattern of ASCII letters
      compares under \<open>re.IGNORECASE\<close> on these code points\<close>
  "lower_char c = (case map_of (zip ''ABCDEFGHIJKLMNOPQRSTUVWXYZ'' ''abcdefghijklmnopqrstuvwxyz'') c of
      Some d \<Rightarrow> d | None \<Rightarrow> c)"

fun split_acc :: "char \<Rightarrow> string \<Rightarrow> string \<Rightarrow> string list" where
  "split_acc d cur [] = [cur]"
| "split_acc d cur (c # cs) = (if c = d then cur # split_acc d [] cs else split_acc d (cur @ [c]) cs)"

definition split_char :: "char \<Rightarrow> string \<Rightarrow> string list" where
  \<comment> \<open>\<open>s.split(d)\<close> for a single character \<open>d\<close>\<close>
  "split_char d s = split_acc d [] s"

fun join :: "string \<Rightarrow> string list \<Rightarrow> string" where
  \<comment> \<open>\<open>sep.join(xs)\<close>\<close>
  "join sep [] = []"
| "join sep [x] = x"
| "join sep (x # y # ys) = x @ sep @ join sep (y # ys)"

definition strip :: "string \<Rightarrow> string" where
  \<comment> \<open>\<open>s.strip()\<close>\<close>
  "strip s = rev (dropWhile is_space (rev (dropWhile is_space s)))"

fun split_ws_acc :: "string \<Rightarrow> string \<Rightarrow> string list" where
  "split_ws_acc cur [] = (if cur = [] then [] else [cur])"
| "split_ws_acc cur (c # cs) =
     (if is_space c then (if cur = [] then [] else [cur]) @ split_ws_acc [] cs
      else split_ws_acc (cur @ [c]) cs)"

definition split_ws :: "string \<Rightarrow> string list" where
  \<comment> \<open>\<open>s.split()\<close>: the maximal runs of characters that are not white space\<close>
  "split_ws s = split_ws_acc [] s"

definition is_linebreak :: "char \<Rightarrow> bool" where
  \<comment> \<open>the line boundaries of \<open>str.splitlines\<close> among these code points\<close>
  "is_linebreak c \<longleftrightarrow> c \<in> set [CHR 0x0A, CHR 0x0B, CHR 0x0C, CHR 0x0D, CHR 0x1C, CHR 0x1D, CHR 0x1E, CHR 0x85]"

fun splitlines_acc :: "string \<Rightarrow> string \<Rightarrow> string list" where
  "splitlines_acc cur [] = (if cur = [] then [] else [cur])"
| "splitlines_acc cur (c # cs) =
     (if c = CHR 0x0D then
        (case cs of
           [] \<Rightarrow> cur # splitlines_acc [] cs
         | d # ds \<Rightarrow> if d = CHR 0x0A then cur # splitlines_acc [] ds else cur # splitlines_acc [] cs)
      else if is_linebreak c then cur # splitlines_acc [] cs
      else splitlines_acc (cur @ [c]) cs)"

definition splitlines :: "string \<Rightarrow> string list" where
  \<comment> \<open>\<open>s.splitlines()\<close>: a carriage return and line feed together end one line, and no
      empty line follows the last line break\<close>
  "splitlines s = splitlines_acc [] s"

definition replace_char :: "char \<Rightarrow> char \<Rightarrow> string \<Rightarrow> string" where
  \<comment> \<open>\<open>s.replace(a, b)\<close> for single characters\<close>
  "replace_char a b s = map (\<lambda>c. if c = a then b else c) s"

definition digit_char :: "nat \<Rightarrow> char" where
  "digit_char n = ''0123456789'' ! (n mod 10)"

fun str_nat :: "nat \<Rightarrow> string" where
  \<comment> \<open>\<open>str(n)\<close> for a natural number\<close>
  "str_nat n = (if n < 10 then [digit_char n] else str_nat (n div 10) @ [digit_char n])"

fun fromkeys_acc :: "'a list \<Rightarrow> 'a list \<Rightarrow> 'a list" where
  "fromkeys_acc seen [] = seen"
| "fromkeys_acc seen (x # xs) = fromkeys_acc (if x \<in> set seen then seen else seen @ [x]) xs"

definition dict_fromkeys :: "'a list \<Rightarrow> 'a list" where
  \<comment> \<open>\<open>list(dict.fromkeys(xs))\<close>: the keys of a dictionary in the order of their first
      insertion\<close>
  "dict_fromkeys xs = fromkeys_acc [] xs"

section \<open>The regular expressions\<close>

definition ci_prefix :: "string \<Rightarrow> string \<Rightarrow> bool" where
  \<comment> \<open>the literal \<open>p\<close> (written in lower case) matches at the head of \<open>s\<close> under
      \<open>re.IGNORECASE\<close>\<close>
  "ci_prefix p s \<longleftrightarrow> length p \<le> length s \<and> map lower_char (take (length p) s) = p"

text \<open>
  \<open>SECTION_PATTERN = ^(\d+(?:\.\d+)*)(\s+)(.+)$\<close>, applied with \<open>match\<close> to one line of
  \<open>splitlines\<close>, which holds no line feed, so that \<open>.\<close> matches every character of it
  and \<open>$\<close> only its end.  \<open>scan_number\<close> is the greedy first group, entered after its
  first digit; giving back a digit or a group never helps, since white space must follow.
  The second group is the whole run of white space, unless nothing follows it: then it
  gives its last character to the third group.
\<close>

fun scan_number :: "string \<Rightarrow> string \<Rightarrow> string \<times> string" where
  "scan_number acc [] = (acc, [])"
| "scan_number acc (c # cs) =
     (if is_digit c then scan_number (acc @ [c]) cs
      else if c = CHR ''.'' then
        (case cs of
           [] \<Rightarrow> (acc, c # cs)
         | d # ds \<Rightarrow> if is_digit d then scan_number (acc @ [c, d]) ds else (acc, c # cs))
      else (acc, c # cs))"

definition SECTION_PATTERN_match :: "string \<Rightarrow> (string \<times> string \<times> string) option" where
  "SECTION_PATTERN_match line =
     (case line of
        [] \<Rightarrow> None
      | c # cs \<Rightarrow>
          if \<not> is_digit c then None
          else (case scan_number [c] cs of (number, rest) \<Rightarrow>
            (let ws = takeWhile is_space rest; text = dropWhile is_space rest
             in if ws = [] then None
                else if text \<noteq> [] then Some (number, ws, text)
                else if 2 \<le> length ws then Some (number, butlast ws, [last ws])
                else None)))"

text \<open>
  \<open>SHALL_PATTERN = \bshall\b\<close> with \<open>re.IGNORECASE\<close>, used with \<open>search\<close> for its truth
  value.  The flag says whether the character before the position is a word character.
\<close>

definition shall_at :: "bool \<Rightarrow> string \<Rightarrow> bool" where
  "shall_at prev_word s \<longleftrightarrow>
     (if prev_word then False
      else ci_prefix ''shall'' s \<and> (case drop 5 s of [] \<Rightarrow> True | d # _ \<Rightarrow> if is_word d then False else True))"

fun SHALL_search_from :: "bool \<Rightarrow> string \<Rightarrow> bool" where
  "SHALL_search_from prev_word [] = False"
| "SHALL_search_from prev_word (c # cs) =
     (if shall_at prev_word (c # cs) then True else SHALL_search_from (is_word c) cs)"

definition SHALL_PATTERN_search :: "string \<Rightarrow> bool" where
  "SHALL_PATTERN_search line = SHALL_search_from False line"

text \<open>
  \<open>ANCHOR_PATTERN = \(see\b[^)]*\)\<close> with \<open>re.IGNORECASE\<close> (\<open>OCP_parser_v3.py\<close> and
  \<open>ocp_parser.py\<close>): after \<open>(see\<close> no word character may follow, and the match runs to
  the first closing parenthesis, over line feeds too.  \<open>search\<close> returns the match at the
  leftmost position that has one; \<open>findall\<close> goes on after the end of each match.
\<close>

definition ANCHOR_match_at :: "string \<Rightarrow> string option" where
  "ANCHOR_match_at s =
     (if ci_prefix ''(see'' s then
        (case drop 4 s of
           [] \<Rightarrow> None
         | d # r \<Rightarrow>
             if is_word d then None
             else if CHR 0x29 \<in> set (d # r)
               then Some (take 4 s @ takeWhile (\<lambda>c. c \<noteq> CHR 0x29) (d # r) @ [CHR 0x29])
               else None)
      else None)"

fun ANCHOR_PATTERN_search :: "string \<Rightarrow> string option" where
  "ANCHOR_PATTERN_search [] = None"
| "ANCHOR_PATTERN_search (c # cs) =
     (case ANCHOR_match_at (c # cs) of Some g \<Rightarrow> Some g | None \<Rightarrow> ANCHOR_PATTERN_search cs)"

fun ANCHOR_findall_skip :: "nat \<Rightarrow> string \<Rightarrow> string list" where
  "ANCHOR_findall_skip n [] = []"
| "ANCHOR_findall_skip (Suc n) (c # cs) = ANCHOR_findall_skip n cs"
| "ANCHOR_findall_skip 0 (c # cs) =
     (case ANCHOR_match_at (c # cs) of
        Some g \<Rightarrow> g # ANCHOR_findall_skip (length g - 1) cs
      | None \<Rightarrow> ANCHOR_findall_skip 0 cs)"

definition ANCHOR_PATTERN_findall :: "string \<Rightarrow> string list" where
  "ANCHOR_PATTERN_findall s = ANCHOR_findall_skip 0 s"

text \<open>
  \<open>ANCHOR_PATTERN = \bsee\s+[^\n.,;]+\<close> with \<open>re.IGNORECASE\<close> (\<open>ocpparser3.py\<close>).
  \<open>\s+\<close> first takes the whole run of white space after \<open>see\<close> and gives back one
  character at a time until a character other than a line feed, a full stop, a comma and
  a semicolon follows; \<open>anchor3_tail s k\<close> tries \<open>k\<close> characters of white space, then fewer.
\<close>

definition anchor3_char :: "char \<Rightarrow> bool" where
  "anchor3_char c \<longleftrightarrow> c \<notin> set [CHR 0x0A, CHR ''.'', CHR '','', CHR '';'']"

fun anchor3_tail :: "string \<Rightarrow> nat \<Rightarrow> string option" where
  "anchor3_tail s 0 = None"
| "anchor3_tail s (Suc k) =
     (if takeWhile anchor3_char (drop (Suc k) s) \<noteq> []
      then Some (take (Suc k) s @ takeWhile anchor3_char (drop (Suc k) s))
      else anchor3_tail s k)"

definition ANCHOR3_match_at :: "bool \<Rightarrow> string \<Rightarrow> string option" where
  "ANCHOR3_match_at prev_word s =
     (if prev_word then None
      else if ci_prefix ''see'' s then
        (case anchor3_tail (drop 3 s) (length (takeWhile is_space (drop 3 s))) of
           Some g \<Rightarrow> Some (take 3 s @ g)
         | None \<Rightarrow> None)
      else None)"

fun ANCHOR3_finditer_from :: "bool \<Rightarrow> nat \<Rightarrow> string \<Rightarrow> string list" where
  "ANCHOR3_finditer_from prev_word n [] = []"
| "ANCHOR3_finditer_from prev_word (Suc n) (c # cs) = ANCHOR3_finditer_from (is_word c) n cs"
| "ANCHOR3_finditer_from prev_word 0 (c # cs) =
     (case ANCHOR3_match_at prev_word (c # cs) of
        Some g \<Rightarrow> g # ANCHOR3_finditer_from (is_word c) (length g - 1) cs
      | None \<Rightarrow> ANCHOR3_finditer_from (is_word c) 0 cs)"

text \<open>
  \<open>SHALL_PATTERN = [^.!?]*\bshall\b[^.!?]*[.!?]\<close> with \<open>re.IGNORECASE\<close>
  (\<open>OCP_parser.py\<close>), used with \<open>findall\<close>.  From a position, the first \<open>[^.!?]*\<close> takes
  the whole run up to the next full stop, exclamation or question mark and gives back one
  character at a time; \<open>sentence_try pw s k\<close> tries the word at offset \<open>k\<close>, then at
  smaller offsets.  After the word the second run is taken whole, and one of the three
  marks must follow it.
\<close>

definition sentence_char :: "char \<Rightarrow> bool" where
  "sentence_char c \<longleftrightarrow> c \<notin> set ''.!?''"

definition sentence_at :: "bool \<Rightarrow> string \<Rightarrow> nat \<Rightarrow> string option" where
  "sentence_at pw s k =
     (if shall_at (if k = 0 then pw else is_word (s ! (k - 1))) (drop k s)
         \<and> dropWhile sentence_char (drop (k + 5) s) \<noteq> []
      then Some (take (k + 5 + length (takeWhile sentence_char (drop (k + 5) s)) + 1) s)
      else None)"

fun sentence_try :: "bool \<Rightarrow> string \<Rightarrow> nat \<Rightarrow> string option" where
  "sentence_try pw s 0 = sentence_at pw s 0"
| "sentence_try pw s (Suc k) =
     (case sentence_at pw s (Suc k) of Some g \<Rightarrow> Some g | None \<Rightarrow> sentence_try pw s k)"

definition SHALL_sentence_match_at :: "bool \<Rightarrow> string \<Rightarrow> string option" where
  "SHALL_sentence_match_at pw s = sentence_try pw s (length (takeWhile sentence_char s))"

fun SHALL_sentence_findall_from :: "bool \<Rightarrow> nat \<Rightarrow> string \<Rightarrow> string list" where
  "SHALL_sentence_findall_from pw n [] = []"
| "SHALL_sentence_findall_from pw (Suc n) (c # cs) = SHALL_sentence_findall_from (is_word c) n cs"
| "SHALL_sentence_findall_from pw 0 (c # cs) =
     (case SHALL_sentence_match_at pw (c # cs) of
        Some g \<Rightarrow> g # SHALL_sentence_findall_from (is_word c) (length g - 1) cs
      | None \<Rightarrow> SHALL_sentence_findall_from (is_word c) 0 cs)"

section \<open>Hierarchy\<close>

record HierarchyTree =
  current :: string
  parent :: "string option"
  grandparent :: "string option"
  ancestors :: "string list"

text \<open>
  \<open>build_hierarchy_tree\<close> of \<open>OCP_parser_v3.py\<close> (the same in \<open>ocpparser3.py\<close>, and
  in \<open>ocp_parser.py\<close> without the field \<open>current\<close>).  The title map
  \<open>self.section_title_map\<close> is a parameter.  The loop
  \<open>for i in range(1, len(parts))\<close> runs over the list of its indices.
\<close>

fun ancestors_loop ::
  "(string \<rightharpoonup> string) \<Rightarrow> string list \<Rightarrow> nat list \<Rightarrow> string list \<Rightarrow> error + string list" where
  "ancestors_loop m parts [] anc = Inr anc"
| "ancestors_loop m parts (i # is) anc =
     (let key = join ''.'' (take i parts) in
      if m key \<noteq> None
      then ebind (dict_get m key) (\<lambda>v. ancestors_loop m parts is (anc @ [v]))
      else ancestors_loop m parts is anc)"

definition build_hierarchy_tree :: "(string \<rightharpoonup> string) \<Rightarrow> string \<Rightarrow> error + HierarchyTree" where
  "build_hierarchy_tree m section_number =
     (let parts = split_char (CHR ''.'') section_number in
      ebind (ancestors_loop m parts [1..<length parts] []) (\<lambda>anc.
      ebind (if anc \<noteq> [] then ebind (py_get anc (- 1)) (\<lambda>p. Inr (Some p)) else Inr None) (\<lambda>par.
      ebind (if length anc \<ge> 2 then ebind (py_get anc (- 2)) (\<lambda>g. Inr (Some g)) else Inr None) (\<lambda>gpar.
      Inr \<lparr>current = (case m section_number of Some v \<Rightarrow> v | None \<Rightarrow> section_number),
           parent = par, grandparent = gpar, ancestors = anc\<rparr>))))"

text \<open>
  \<open>build_hierarchy_tree\<close> of \<open>OCP_parser.py\<close> (the same in \<open>OCP_parser_2.py\<close>): these
  variants keep no title map, and name the ancestors by their numbers.  Slices never
  raise: \<open>parts[:-1]\<close> is \<open>butlast\<close>, \<open>parts[:-2]\<close> drops the last two.
\<close>

definition build_hierarchy_tree_OCP_parser :: "string \<Rightarrow> HierarchyTree" where
  "build_hierarchy_tree_OCP_parser hierarchy =
     (let parts = split_char (CHR ''.'') hierarchy in
      \<lparr>current = hierarchy,
       parent = (if length parts > 1 then Some (join ''.'' (butlast parts)) else None),
       grandparent = (if length parts > 2 then Some (join ''.'' (butlast (butlast parts))) else None),
       ancestors = map (\<lambda>i. join ''.'' (take (i + 1) parts)) [0..<length parts - 1]\<rparr>)"

definition strict_prefixes :: "string \<Rightarrow> string list" where
  \<comment> \<open>the joined leading components of an id, for the lengths 1 to n - 1, shortest first\<close>
  "strict_prefixes sid =
     (let parts = split_char (CHR ''.'') sid in map (\<lambda>i. join ''.'' (take i parts)) [1..<length parts])"

definition build_hierarchy_tree_flat ::
  "(string \<rightharpoonup> string) \<Rightarrow> string \<Rightarrow> error + (string option \<times> string option \<times> string list)" where
  \<comment> \<open>\<open>build_hierarchy_tree\<close> of \<open>ocp_parser.py\<close>, whose \<open>HierarchyTree\<close> has the fields
      \<open>parent\<close>, \<open>grandparent\<close> and \<open>ancestors\<close> only, returned here as a triple\<close>
  "build_hierarchy_tree_flat m section_number =
     (let parts = split_char (CHR ''.'') section_number in
      ebind (ancestors_loop m parts [1..<length parts] []) (\<lambda>anc.
      ebind (if anc \<noteq> [] then ebind (py_get anc (- 1)) (\<lambda>p. Inr (Some p)) else Inr None) (\<lambda>par.
      ebind (if length anc > 1 then ebind (py_get anc (- 2)) (\<lambda>g. Inr (Some g)) else Inr None) (\<lambda>gpar.
      Inr (par, gpar, anc)))))"

section \<open>Requirements with their context (\<open>OCP_parser_v3.py\<close>)\<close>

record Requirement =
  requirement_id :: string
  shall_text :: string
  context_before :: "string list"
  context_after :: "string list"
  anchor :: "string option"
  page_number :: int
  hierarchy :: string
  parent_hierarchy :: "string option"

record SectionMetadata =
  content_length :: nat
  requirement_count :: nat
  reference_count :: nat
  has_subsections :: bool
  depth :: nat
  word_count :: nat

record Section =
  section_id :: string
  section_hierarchy :: string
  hierarchy_tree :: HierarchyTree
  title :: string
  requirements :: "Requirement list"
  section_page_number :: int
  metadata :: SectionMetadata
  raw_content :: string

text \<open>The dictionary \<open>current\<close> of \<open>parse\<close>, the section that is open.\<close>

record OpenSection =
  number :: string
  open_title :: string
  full_name :: string
  open_page_number :: int
  lines :: "string list"

text \<open>
  The loop \<open>i = idx - 1; while i >= 0: ...; i -= 1\<close>.  The argument of \<open>before_loop\<close> is
  \<open>i + 1\<close>, so that it ends at 0.  The line is read twice, for the test and for the value.
\<close>

fun before_loop :: "string list \<Rightarrow> nat \<Rightarrow> error + string list" where
  "before_loop ls 0 = Inr []"
| "before_loop ls (Suc i) =
     (case py_get ls (int i) of
        Inl e \<Rightarrow> Inl e
      | Inr l \<Rightarrow>
          if strip l \<noteq> [] then (case py_get ls (int i) of Inl e \<Rightarrow> Inl e | Inr b \<Rightarrow> Inr [b])
          else before_loop ls i)"

text \<open>The loop \<open>i = idx + 1; while i < len(lines): ...; i += 1\<close>.\<close>

function after_loop :: "string list \<Rightarrow> nat \<Rightarrow> error + string list" where
  "after_loop ls i =
     (if i < length ls then
        (case py_get ls (int i) of
           Inl e \<Rightarrow> Inl e
         | Inr l \<Rightarrow>
             if strip l \<noteq> [] then (case py_get ls (int i) of Inl e \<Rightarrow> Inl e | Inr a \<Rightarrow> Inr [a])
             else after_loop ls (i + 1))
      else Inr [])"
  by pat_completeness auto
termination
  by (relation "measure (\<lambda>(ls, i). length ls - i)") auto

declare after_loop.simps [simp del]

text \<open>
  The anchor detection of the loop body: \<open>search\<close> on the line, and on \<open>after[0]\<close> when the
  line has no match and \<open>after\<close> is not empty; then \<open>group(0)\<close> of the match, or \<open>None\<close>.
\<close>

definition anchor_detection :: "string \<Rightarrow> string list \<Rightarrow> error + string option" where
  "anchor_detection line after_lines =
     (case ANCHOR_PATTERN_search line of
        Some g \<Rightarrow> Inr (Some g)
      | None \<Rightarrow>
          if after_lines \<noteq> [] then (case py_get after_lines 0 of Inl e \<Rightarrow> Inl e | Inr a \<Rightarrow> Inr (ANCHOR_PATTERN_search a))
          else Inr None)"

fun requirements_loop ::
  "string list \<Rightarrow> string \<Rightarrow> string \<Rightarrow> string option \<Rightarrow> int \<Rightarrow> (nat \<times> string) list
     \<Rightarrow> Requirement list \<Rightarrow> error + Requirement list" where
  "requirements_loop ls sid h ph pg [] reqs = Inr reqs"
| "requirements_loop ls sid h ph pg ((idx, line) # rest) reqs =
     (if \<not> SHALL_PATTERN_search line then requirements_loop ls sid h ph pg rest reqs
      else
        (case before_loop ls idx of
           Inl e \<Rightarrow> Inl e
         | Inr before_lines \<Rightarrow>
        (case after_loop ls (idx + 1) of
           Inl e \<Rightarrow> Inl e
         | Inr after_lines \<Rightarrow>
        (case anchor_detection line after_lines of
           Inl e \<Rightarrow> Inl e
         | Inr anc \<Rightarrow>
             requirements_loop ls sid h ph pg rest
               (reqs @ [\<lparr>requirement_id = sid @ ''_req_'' @ str_nat (length reqs + 1),
                          shall_text = line, context_before = before_lines, context_after = after_lines,
                          anchor = anc, page_number = pg, hierarchy = h,
                          parent_hierarchy = ph\<rparr>])))))"

definition extract_requirements_with_context ::
  "string list \<Rightarrow> string \<Rightarrow> string \<Rightarrow> string option \<Rightarrow> int \<Rightarrow> error + Requirement list" where
  "extract_requirements_with_context ls sid h ph pg =
     requirements_loop ls sid h ph pg (zip [0..<length ls] ls) []"

definition finalize_section :: "(string \<rightharpoonup> string) \<Rightarrow> OpenSection \<Rightarrow> error + Section" where
  "finalize_section m data =
     (let content = join [CHR 0x0A] (lines data) in
      ebind (build_hierarchy_tree m (number data)) (\<lambda>tree.
      let sid = ''section_'' @ replace_char (CHR ''.'') (CHR ''_'') (number data) in
      ebind (extract_requirements_with_context (lines data) sid (full_name data) (parent tree)
               (open_page_number data)) (\<lambda>reqs.
      Inr \<lparr>section_id = sid,
           section_hierarchy = full_name data,
           hierarchy_tree = tree,
           title = open_title data,
           requirements = reqs,
           section_page_number = open_page_number data,
           metadata = \<lparr>content_length = length content,
                        requirement_count = length reqs,
                        reference_count = length (ANCHOR_PATTERN_findall content),
                        has_subsections = (CHR ''.'' \<in> set (number data)),
                        depth = length (split_char (CHR ''.'') (number data)),
                        word_count = length (split_ws content)\<rparr>,
           raw_content = content\<rparr>)))"

section \<open>The segmenter (\<open>parse\<close> of \<open>OCP_parser_v3.py\<close>)\<close>

text \<open>
  The state of the loops of \<open>parse\<close>: the list \<open>sections\<close>, the open section \<open>current\<close>
  (\<open>None\<close> before the first header) and the title map of the parser.  A page is the pair of
  its \<open>page_number\<close> and its \<open>text\<close>.
\<close>

record parse_state =
  sections :: "Section list"
  open_section :: "OpenSection option"
  section_title_map :: "string \<rightharpoonup> string"

definition parse_line :: "int \<Rightarrow> parse_state \<Rightarrow> string \<Rightarrow> error + parse_state" where
  "parse_line pg st line =
     (case SECTION_PATTERN_match line of
        Some (num, ws, ttl) \<Rightarrow>
          ebind (case open_section st of
                   Some c \<Rightarrow> ebind (finalize_section (section_title_map st) c)
                                (\<lambda>sec. Inr (sections st @ [sec]))
                 | None \<Rightarrow> Inr (sections st)) (\<lambda>secs.
          Inr \<lparr>sections = secs,
               open_section = Some \<lparr>number = num, open_title = ttl, full_name = num @ '' '' @ ttl,
                           open_page_number = pg, lines = []\<rparr>,
               section_title_map = (section_title_map st)(num \<mapsto> num @ '' '' @ ttl)\<rparr>)
      | None \<Rightarrow>
          (case open_section st of
             Some c \<Rightarrow> Inr (st\<lparr>open_section := Some (c\<lparr>lines := lines c @ [line]\<rparr>)\<rparr>)
           | None \<Rightarrow> Inr st))"

fun parse_lines :: "int \<Rightarrow> parse_state \<Rightarrow> string list \<Rightarrow> error + parse_state" where
  "parse_lines pg st [] = Inr st"
| "parse_lines pg st (line # rest) =
     (case parse_line pg st line of Inl e \<Rightarrow> Inl e | Inr st' \<Rightarrow> parse_lines pg st' rest)"

fun parse_pages :: "parse_state \<Rightarrow> (int \<times> string) list \<Rightarrow> error + parse_state" where
  "parse_pages st [] = Inr st"
| "parse_pages st ((pg, text) # rest) =
     (case parse_lines pg st (splitlines text) of Inl e \<Rightarrow> Inl e | Inr st' \<Rightarrow> parse_pages st' rest)"

definition parse_end :: "parse_state \<Rightarrow> error + parse_state" where
  \<comment> \<open>after the loops: \<open>if current: sections.append(self._finalize_section(current))\<close>\<close>
  "parse_end st =
     (case open_section st of
        Some c \<Rightarrow> ebind (finalize_section (section_title_map st) c)
                     (\<lambda>sec. Inr (st\<lparr>sections := sections st @ [sec]\<rparr>))
      | None \<Rightarrow> Inr st)"

definition initial_state :: parse_state where
  "initial_state = \<lparr>sections = [], open_section = None, section_title_map = Map.empty\<rparr>"

definition parse_run :: "(int \<times> string) list \<Rightarrow> error + parse_state" where
  \<comment> \<open>\<open>parse\<close> with the parser's final state kept: its \<open>sections\<close> are the result, its title
      map is \<open>self.section_title_map\<close> afterwards\<close>
  "parse_run pages = ebind (parse_pages initial_state pages) parse_end"

definition parse :: "(int \<times> string) list \<Rightarrow> error + Section list" where
  "parse pages = ebind (parse_run pages) (\<lambda>st. Inr (sections st))"

section \<open>Flat records (\<open>ocp_parser.py\<close>)\<close>

text \<open>
  Every record of a section holds \<open>metadata.__dict__\<close>, the attribute dictionary of the
  one \<open>SectionMetadata\<close> object of the call, and the last statement of
  \<open>_finalize_section\<close> assigns \<open>metadata.requirement_count\<close>: the records see the
  assignment.  The objects are therefore kept in a store, a list addressed by position,
  and a record holds the address.  \<open>extract_key_phrases\<close> is a parameter \<open>kp\<close>: it is a
  function of the line alone and no claim depends on what it returns.
\<close>

record SectionMetadata_flat =
  flat_content_length :: nat
  flat_requirement_count :: nat
  flat_reference_count :: nat
  flat_has_subsections :: bool
  flat_depth :: nat
  word_count_in_section :: nat

record FlatRecord =
  flat_hierarchy :: string
  flat_hierarchy_tree :: "string option \<times> string option \<times> string list"
  flat_page_number :: int
  shall_sentence :: "string option"
  before_shall :: "string option"
  after_shall :: "string option"
  flat_anchor :: "string option"
  key_phrases :: "string list"
  flat_metadata :: nat

record OpenSection_flat =
  flat_number :: string
  open_hierarchy :: string
  flat_open_page_number :: int
  flat_lines :: "string list"

text \<open>
  \<open>next((lines[i] for i in ... if lines[i].strip()), None)\<close> over the list of the indices
  of the range.
\<close>

fun next_nonblank :: "string list \<Rightarrow> nat list \<Rightarrow> error + string option" where
  "next_nonblank ls [] = Inr None"
| "next_nonblank ls (i # is) =
     (case py_get ls (int i) of
        Inl e \<Rightarrow> Inl e
      | Inr l \<Rightarrow>
          if strip l \<noteq> [] then (case py_get ls (int i) of Inl e \<Rightarrow> Inl e | Inr b \<Rightarrow> Inr (Some b))
          else next_nonblank ls is)"

definition anchor_detection_flat :: "string \<Rightarrow> string option \<Rightarrow> string option" where
  \<comment> \<open>\<open>after\<close> is a string or \<open>None\<close> here, and counts as true when it is a string that is
      not empty\<close>
  "anchor_detection_flat line after_line =
     (case ANCHOR_PATTERN_search line of
        Some g \<Rightarrow> Some g
      | None \<Rightarrow>
          (case after_line of
             Some a \<Rightarrow> if a \<noteq> [] then ANCHOR_PATTERN_search a else None
           | None \<Rightarrow> None))"

fun flat_records_loop ::
  "(string \<Rightarrow> string list) \<Rightarrow> string list \<Rightarrow> OpenSection_flat
     \<Rightarrow> string option \<times> string option \<times> string list \<Rightarrow> nat \<Rightarrow> (nat \<times> string) list
     \<Rightarrow> FlatRecord list \<Rightarrow> error + FlatRecord list" where
  "flat_records_loop kp ls data tree ref [] records = Inr records"
| "flat_records_loop kp ls data tree ref ((idx, line) # rest) records =
     (if \<not> SHALL_PATTERN_search line then flat_records_loop kp ls data tree ref rest records
      else
        (case next_nonblank ls (rev [0..<idx]) of
           Inl e \<Rightarrow> Inl e
         | Inr before_line \<Rightarrow>
        (case next_nonblank ls [idx + 1..<length ls] of
           Inl e \<Rightarrow> Inl e
         | Inr after_line \<Rightarrow>
             flat_records_loop kp ls data tree ref rest
               (records @ [\<lparr>flat_hierarchy = open_hierarchy data,
                             flat_hierarchy_tree = tree,
                             flat_page_number = flat_open_page_number data,
                             shall_sentence = Some (strip line),
                             before_shall = before_line,
                             after_shall = after_line,
                             flat_anchor = anchor_detection_flat line after_line,
                             key_phrases = kp line,
                             flat_metadata = ref\<rparr>]))))"

definition finalize_section_flat ::
  "(string \<Rightarrow> string list) \<Rightarrow> (string \<rightharpoonup> string) \<Rightarrow> SectionMetadata_flat list \<Rightarrow> OpenSection_flat
     \<Rightarrow> error + (FlatRecord list \<times> SectionMetadata_flat list)" where
  "finalize_section_flat kp m store data =
     (let ls = flat_lines data; content = join [CHR 0x0A] ls in
      ebind (build_hierarchy_tree_flat m (flat_number data)) (\<lambda>tree.
      let ref = length store;
          store1 = store @ [\<lparr>flat_content_length = length content,
                               flat_requirement_count = 0,
                               flat_reference_count = length (ANCHOR_PATTERN_findall content),
                               flat_has_subsections = (CHR ''.'' \<in> set (flat_number data)),
                               flat_depth = length (split_char (CHR ''.'') (flat_number data)),
                               word_count_in_section = length (split_ws content)\<rparr>] in
      ebind (flat_records_loop kp ls data tree ref (zip [0..<length ls] ls) []) (\<lambda>found.
      let records = (if found = [] then
                       [\<lparr>flat_hierarchy = open_hierarchy data,
                          flat_hierarchy_tree = tree,
                          flat_page_number = flat_open_page_number data,
                          shall_sentence = None, before_shall = None, after_shall = None,
                          flat_anchor = None, key_phrases = [], flat_metadata = ref\<rparr>]
                     else found) in
      ebind (py_get store1 (int ref)) (\<lambda>md.
      Inr (records, store1[ref := md\<lparr>flat_requirement_count := length records\<rparr>])))))"

definition record_metadata :: "SectionMetadata_flat list \<Rightarrow> FlatRecord \<Rightarrow> error + SectionMetadata_flat" where
  \<comment> \<open>the dictionary under the key \<open>metadata\<close> of a record, as the output shows it\<close>
  "record_metadata store r = py_get store (int (flat_metadata r))"

record parse_state_flat =
  output_records :: "FlatRecord list"
  open_section_flat :: "OpenSection_flat option"
  title_map_flat :: "string \<rightharpoonup> string"
  metadata_store :: "SectionMetadata_flat list"

definition finalize_open_flat ::
  "(string \<Rightarrow> string list) \<Rightarrow> parse_state_flat \<Rightarrow> error + parse_state_flat" where
  \<comment> \<open>\<open>if current: output.extend(self._finalize_section(current))\<close>\<close>
  "finalize_open_flat kp st =
     (case open_section_flat st of
        Some c \<Rightarrow>
          ebind (finalize_section_flat kp (title_map_flat st) (metadata_store st) c) (\<lambda>(records, store).
          Inr (st\<lparr>output_records := output_records st @ records, metadata_store := store\<rparr>))
      | None \<Rightarrow> Inr st)"

definition parse_line_flat ::
  "(string \<Rightarrow> string list) \<Rightarrow> int \<Rightarrow> parse_state_flat \<Rightarrow> string \<Rightarrow> error + parse_state_flat" where
  "parse_line_flat kp pg st line =
     (case SECTION_PATTERN_match line of
        Some (num, ws, ttl) \<Rightarrow>
          ebind (finalize_open_flat kp st) (\<lambda>st1.
          Inr (st1\<lparr>open_section_flat := Some \<lparr>flat_number = num, open_hierarchy = num @ '' '' @ ttl,
                                               flat_open_page_number = pg, flat_lines = []\<rparr>,
                    title_map_flat := (title_map_flat st1)(num \<mapsto> num @ '' '' @ ttl)\<rparr>))
      | None \<Rightarrow>
          (case open_section_flat st of
             Some c \<Rightarrow> Inr (st\<lparr>open_section_flat := Some (c\<lparr>flat_lines := flat_lines c @ [line]\<rparr>)\<rparr>)
           | None \<Rightarrow> Inr st))"

fun parse_lines_flat ::
  "(string \<Rightarrow> string list) \<Rightarrow> int \<Rightarrow> parse_state_flat \<Rightarrow> string list \<Rightarrow> error + parse_state_flat" where
  "parse_lines_flat kp pg st [] = Inr st"
| "parse_lines_flat kp pg st (line # rest) =
     (case parse_line_flat kp pg st line of Inl e \<Rightarrow> Inl e | Inr st' \<Rightarrow> parse_lines_flat kp pg st' rest)"

fun parse_pages_flat ::
  "(string \<Rightarrow> string list) \<Rightarrow> parse_state_flat \<Rightarrow> (int \<times> string) list \<Rightarrow> error + parse_state_flat" where
  "parse_pages_flat kp st [] = Inr st"
| "parse_pages_flat kp st ((pg, text) # rest) =
     (case parse_lines_flat kp pg st (splitlines text) of
        Inl e \<Rightarrow> Inl e
      | Inr st' \<Rightarrow> parse_pages_flat kp st' rest)"

definition initial_state_flat :: parse_state_flat where
  "initial_state_flat =
     \<lparr>output_records = [], open_section_flat = None, title_map_flat = Map.empty, metadata_store = []\<rparr>"

definition parse_flat :: "(string \<Rightarrow> string list) \<Rightarrow> (int \<times> string) list \<Rightarrow> error + parse_state_flat" where
  \<comment> \<open>\<open>parse\<close> of \<open>ocp_parser.py\<close>: the field \<open>output_records\<close> of the final state is its result \<open>output\<close>\<close>
  "parse_flat kp pages = ebind (parse_pages_flat kp initial_state_flat pages) (finalize_open_flat kp)"

section \<open>Sections with their sentences (\<open>ocpparser3.py\<close> and \<open>OCP_parser.py\<close>)\<close>

text \<open>
  The dataclass \<open>Section\<close> of these two variants has the fields \<open>anchors\<close> and
  \<open>shall_sentences\<close> in place of \<open>requirements\<close>.
\<close>

record Section3 =
  id3 :: string
  hierarchy3 :: string
  title3 :: string
  hierarchy_tree3 :: HierarchyTree
  anchors :: "string list"
  shall_sentences :: "string list"
  page_number3 :: int
  key_phrases3 :: "string list"
  metadata3 :: SectionMetadata
  raw_content3 :: string

text \<open>
  \<open>ocpparser3.py\<close>: the open section holds its content as one string, a line feed after
  each line.
\<close>

record OpenSection3 =
  open3_number :: string
  open3_title :: string
  open3_full_name :: string
  open3_page_number :: int
  open3_content :: string

definition extract_anchors3 :: "string \<Rightarrow> string list" where
  "extract_anchors3 text = ANCHOR3_finditer_from False 0 text"

definition extract_shall_sentences3 :: "string \<Rightarrow> string list" where
  "extract_shall_sentences3 text = filter SHALL_PATTERN_search (splitlines text)"

definition finalize_section3 :: "(string \<rightharpoonup> string) \<Rightarrow> OpenSection3 \<Rightarrow> error + Section3" where
  "finalize_section3 m data =
     (let content = open3_content data in
      ebind (build_hierarchy_tree m (open3_number data)) (\<lambda>tree.
      let found = extract_anchors3 content; sentences = extract_shall_sentences3 content in
      Inr \<lparr>id3 = ''section_'' @ replace_char (CHR ''.'') (CHR ''_'') (open3_number data),
           hierarchy3 = open3_full_name data,
           title3 = open3_title data,
           hierarchy_tree3 = tree,
           anchors = found,
           shall_sentences = sentences,
           page_number3 = open3_page_number data,
           key_phrases3 = [],
           metadata3 = \<lparr>content_length = length content,
                         requirement_count = length sentences,
                         reference_count = length found,
                         has_subsections = (CHR ''.'' \<in> set (open3_number data)),
                         depth = length (split_char (CHR ''.'') (open3_number data)),
                         word_count = length (split_ws content)\<rparr>,
           raw_content3 = content\<rparr>))"

text \<open>
  \<open>OCP_parser.py\<close>.  \<open>extract_anchors\<close> and \<open>extract_key_phrases\<close> are the parameters \<open>ea\<close>
  and \<open>kp\<close> of \<open>finalize_section_OCP_parser\<close>: they are functions of the content alone.
\<close>

record OpenSection_OCP =
  ocp_hierarchy :: string
  ocp_title :: string
  ocp_page_number :: int
  ocp_content :: string
  ocp_start_page :: int

definition SHALL_sentence_findall :: "string \<Rightarrow> string list" where
  "SHALL_sentence_findall text = SHALL_sentence_findall_from False 0 text"

definition extract_shall_sentences :: "string \<Rightarrow> string list" where
  "extract_shall_sentences text =
     dict_fromkeys (map strip (filter (\<lambda>s. length (strip s) > 15) (SHALL_sentence_findall text)))"

definition finalize_section_OCP_parser ::
  "(string \<Rightarrow> string list) \<Rightarrow> (string \<Rightarrow> string list) \<Rightarrow> OpenSection_OCP \<Rightarrow> Section3" where
  "finalize_section_OCP_parser ea kp section_data =
     (let hier = ocp_hierarchy section_data;
          content = strip (ocp_content section_data);
          tree = build_hierarchy_tree_OCP_parser hier;
          found = ea content;
          sentences = extract_shall_sentences content
      in \<lparr>id3 = ''section_'' @ replace_char (CHR ''.'') (CHR ''_'') hier,
          hierarchy3 = hier,
          title3 = ocp_title section_data,
          hierarchy_tree3 = tree,
          anchors = found,
          shall_sentences = sentences,
          page_number3 = ocp_page_number section_data,
          key_phrases3 = kp content,
          metadata3 = \<lparr>content_length = length content,
                        requirement_count = length sentences,
                        reference_count = length found,
                        has_subsections = (CHR ''.'' \<in> set hier),
                        depth = length (split_char (CHR ''.'') hier),
                        word_count = length (split_ws content)\<rparr>,
          raw_content3 = take 1000 content @ (if length content > 1000 then ''...'' else [])\<rparr>)"

fun dot_prefixes :: "string \<Rightarrow> string list" where
  \<comment> \<open>what stands before each dot of a string, shortest first\<close>
  "dot_prefixes [] = []"
| "dot_prefixes (c # cs) = (if c = CHR ''.'' then [[]] else []) @ map ((#) c) (dot_prefixes cs)"

section \<open>Closed forms\<close>

text \<open>
  What the loops compute, written without the loops and without the checks of the
  subscripts: the nearest line with content before and after an index, the anchor of a
  line and of the line after it, and the requirement and the flat record of the line at an
  index.  The lemmas below prove that the loops return these values.
\<close>

abbreviation nonblank :: "string \<Rightarrow> bool" where
  "nonblank l \<equiv> strip l \<noteq> []"

definition nearest_before :: "string list \<Rightarrow> nat \<Rightarrow> string option" where
  "nearest_before ls i = find nonblank (rev (take i ls))"

definition nearest_after :: "string list \<Rightarrow> nat \<Rightarrow> string option" where
  "nearest_after ls i = find nonblank (drop (Suc i) ls)"

definition detected_anchor :: "string \<Rightarrow> string option \<Rightarrow> string option" where
  "detected_anchor line after_line =
     (case ANCHOR_PATTERN_search line of
        Some g \<Rightarrow> Some g
      | None \<Rightarrow> (case after_line of None \<Rightarrow> None | Some a \<Rightarrow> ANCHOR_PATTERN_search a))"

definition shall_indices :: "string list \<Rightarrow> nat list" where
  "shall_indices ls = filter (\<lambda>i. SHALL_PATTERN_search (ls ! i)) [0..<length ls]"

definition requirement_at ::
  "string list \<Rightarrow> string \<Rightarrow> string \<Rightarrow> string option \<Rightarrow> int \<Rightarrow> nat \<Rightarrow> nat \<Rightarrow> Requirement" where
  "requirement_at ls sid h ph pg n i =
     \<lparr>requirement_id = sid @ ''_req_'' @ str_nat (n + 1),
      shall_text = ls ! i,
      context_before = (case nearest_before ls i of None \<Rightarrow> [] | Some b \<Rightarrow> [b]),
      context_after = (case nearest_after ls i of None \<Rightarrow> [] | Some a \<Rightarrow> [a]),
      anchor = detected_anchor (ls ! i) (nearest_after ls i),
      page_number = pg, hierarchy = h, parent_hierarchy = ph\<rparr>"

definition flat_record_at ::
  "(string \<Rightarrow> string list) \<Rightarrow> string list \<Rightarrow> OpenSection_flat
     \<Rightarrow> string option \<times> string option \<times> string list \<Rightarrow> nat \<Rightarrow> nat \<Rightarrow> FlatRecord" where
  "flat_record_at kp ls data tree ref i =
     \<lparr>flat_hierarchy = open_hierarchy data,
      flat_hierarchy_tree = tree,
      flat_page_number = flat_open_page_number data,
      shall_sentence = Some (strip (ls ! i)),
      before_shall = nearest_before ls i,
      after_shall = nearest_after ls i,
      flat_anchor = detected_anchor (ls ! i) (nearest_after ls i),
      key_phrases = kp (ls ! i),
      flat_metadata = ref\<rparr>"

text \<open>
  The tree and the section that \<open>build_hierarchy_tree\<close> and \<open>_finalize_section\<close>
  return.  The stream of a document is the list of its lines, each with the number of its
  page; \<open>segments\<close> cuts it at the header lines, into the page, the number and the title
  of each header and the lines that follow it up to the next header, and \<open>headers_of\<close>
  lists the title map entries that the headers write, in their order.  \<open>parse_stream\<close> is
  the two nested loops of \<open>parse\<close> as one loop over the stream.
\<close>

definition hierarchy_of :: "(string \<rightharpoonup> string) \<Rightarrow> string \<Rightarrow> HierarchyTree" where
  "hierarchy_of m sid =
     (let anc = List.map_filter m (strict_prefixes sid) in
      \<lparr>current = (case m sid of Some v \<Rightarrow> v | None \<Rightarrow> sid),
       parent = (if anc = [] then None else Some (last anc)),
       grandparent = (if length anc < 2 then None else Some (anc ! (length anc - 2))),
       ancestors = anc\<rparr>)"

definition section_of :: "(string \<rightharpoonup> string) \<Rightarrow> OpenSection \<Rightarrow> Section" where
  "section_of m data =
     (let content = join [CHR 0x0A] (lines data);
          tree = hierarchy_of m (number data);
          sid = ''section_'' @ replace_char (CHR ''.'') (CHR ''_'') (number data);
          reqs = map (\<lambda>(n, i). requirement_at (lines data) sid (full_name data) (parent tree)
                          (open_page_number data) n i)
                   (List.enumerate 0 (shall_indices (lines data)))
      in \<lparr>section_id = sid,
          section_hierarchy = full_name data,
          hierarchy_tree = tree,
          title = open_title data,
          requirements = reqs,
          section_page_number = open_page_number data,
          metadata = \<lparr>content_length = length content,
                       requirement_count = length reqs,
                       reference_count = length (ANCHOR_PATTERN_findall content),
                       has_subsections = (CHR ''.'' \<in> set (number data)),
                       depth = length (split_char (CHR ''.'') (number data)),
                       word_count = length (split_ws content)\<rparr>,
          raw_content = content\<rparr>)"

definition page_lines :: "(int \<times> string) list \<Rightarrow> (int \<times> string) list" where
  "page_lines pages = concat (map (\<lambda>(pg, text). map (Pair pg) (splitlines text)) pages)"

definition is_header :: "string \<Rightarrow> bool" where
  "is_header line \<longleftrightarrow> SECTION_PATTERN_match line \<noteq> None"

fun segments :: "(int \<times> string) list \<Rightarrow> (int \<times> string \<times> string \<times> string list) list" where
  "segments [] = []"
| "segments ((pg, l) # rest) =
     (case SECTION_PATTERN_match l of
        Some (n, w, t) \<Rightarrow> (pg, n, t, map snd (takeWhile (\<lambda>x. \<not> is_header (snd x)) rest)) # segments rest
      | None \<Rightarrow> segments rest)"

definition section_view :: "Section \<Rightarrow> int \<times> string \<times> string \<times> string \<times> string" where
  "section_view s = (section_page_number s, section_id s, section_hierarchy s, title s, raw_content s)"

definition segment_view ::
  "int \<times> string \<times> string \<times> string list \<Rightarrow> int \<times> string \<times> string \<times> string \<times> string" where
  "segment_view g =
     (case g of (pg, n, t, body) \<Rightarrow>
        (pg, ''section_'' @ replace_char (CHR ''.'') (CHR ''_'') n, n @ '' '' @ t, t, join [CHR 0x0A] body))"

definition headers_of :: "(int \<times> string) list \<Rightarrow> (string \<times> string) list" where
  "headers_of xs = map (\<lambda>(pg, n, t, body). (n, n @ '' '' @ t)) (segments xs)"

fun parse_stream :: "parse_state \<Rightarrow> (int \<times> string) list \<Rightarrow> error + parse_state" where
  "parse_stream st [] = Inr st"
| "parse_stream st ((pg, l) # rest) =
     (case parse_line pg st l of Inl e \<Rightarrow> Inl e | Inr st' \<Rightarrow> parse_stream st' rest)"

text \<open>The same for \<open>ocp_parser.py\<close>: the records and the metadata object of a section.\<close>

definition flat_tree_of :: "(string \<rightharpoonup> string) \<Rightarrow> string \<Rightarrow> string option \<times> string option \<times> string list" where
  "flat_tree_of m sid =
     (parent (hierarchy_of m sid), grandparent (hierarchy_of m sid), ancestors (hierarchy_of m sid))"

definition flat_records_of ::
  "(string \<Rightarrow> string list) \<Rightarrow> (string \<rightharpoonup> string) \<Rightarrow> nat \<Rightarrow> OpenSection_flat \<Rightarrow> FlatRecord list" where
  "flat_records_of kp m ref data =
     (if shall_indices (flat_lines data) = [] then
        [\<lparr>flat_hierarchy = open_hierarchy data,
          flat_hierarchy_tree = flat_tree_of m (flat_number data),
          flat_page_number = flat_open_page_number data,
          shall_sentence = None, before_shall = None, after_shall = None,
          flat_anchor = None, key_phrases = [], flat_metadata = ref\<rparr>]
      else map (flat_record_at kp (flat_lines data) data (flat_tree_of m (flat_number data)) ref)
             (shall_indices (flat_lines data)))"

definition flat_metadata_of :: "OpenSection_flat \<Rightarrow> nat \<Rightarrow> SectionMetadata_flat" where
  "flat_metadata_of data n =
     (let content = join [CHR 0x0A] (flat_lines data) in
      \<lparr>flat_content_length = length content,
       flat_requirement_count = n,
       flat_reference_count = length (ANCHOR_PATTERN_findall content),
       flat_has_subsections = (CHR ''.'' \<in> set (flat_number data)),
       flat_depth = length (split_char (CHR ''.'') (flat_number data)),
       word_count_in_section = length (split_ws content)\<rparr>)"

fun parse_stream_flat ::
  "(string \<Rightarrow> string list) \<Rightarrow> parse_state_flat \<Rightarrow> (int \<times> string) list \<Rightarrow> error + parse_state_flat" where
  "parse_stream_flat kp st [] = Inr st"
| "parse_stream_flat kp st ((pg, l) # rest) =
     (case parse_line_flat kp pg st l of Inl e \<Rightarrow> Inl e | Inr st' \<Rightarrow> parse_stream_flat kp st' rest)"

text \<open>
  The number of records of a section of \<open>ocp_parser.py\<close>, and the metadata object of a
  segment of the stream.
\<close>

definition flat_count :: "string list \<Rightarrow> nat" where
  "flat_count ls = (if shall_indices ls = [] then 1 else length (shall_indices ls))"

definition segment_metadata :: "int \<times> string \<times> string \<times> string list \<Rightarrow> SectionMetadata_flat" where
  "segment_metadata g =
     (case g of (pg, n, t, body) \<Rightarrow>
        flat_metadata_of \<lparr>flat_number = n, open_hierarchy = n @ '' '' @ t,
                          flat_open_page_number = pg, flat_lines = body\<rparr> (flat_count body))"

text \<open>The sentences that \<open>extract_shall_sentences\<close> of \<open>OCP_parser.py\<close> keeps, before it removes the duplicates.\<close>

definition qualifying :: "string \<Rightarrow> string list" where
  \<comment> \<open>the stripped matches of a text that are longer than 15 characters, in the order of
      the matches\<close>
  "qualifying text = map strip (filter (\<lambda>s. 15 < length (strip s)) (SHALL_sentence_findall text))"

section \<open>Facts about the hierarchy\<close>

lemma ebind_Inr [simp]: "ebind (Inr v) f = f v"
  by (simp add: ebind_def)

lemma ebind_Inl [simp]: "ebind (Inl e) f = Inl e"
  by (simp add: ebind_def)

lemma py_get_last: "xs \<noteq> [] \<Longrightarrow> py_get xs (- 1) = Inr (last xs)"
  by (cases xs rule: rev_cases) (simp_all add: py_get_def nth_append)

lemma py_get_last_but_one:
  "2 \<le> length xs \<Longrightarrow> py_get xs (- 2) = Inr (xs ! (length xs - 2))"
  by (simp add: py_get_def)

lemma ancestors_loop_closed:
  "ancestors_loop m parts is anc =
     Inr (anc @ List.map_filter (\<lambda>i. m (join ''.'' (take i parts))) is)"
proof (induction "is" arbitrary: anc)
  case Nil
  show ?case by (simp add: List.map_filter_simps)
next
  case (Cons i "is")
  show ?case
  proof (cases "m (join ''.'' (take i parts))")
    case None
    then show ?thesis using Cons.IH [of anc] by (simp add: List.map_filter_simps)
  next
    case (Some v)
    then show ?thesis
      using Cons.IH [of "anc @ [v]"] by (simp add: List.map_filter_simps dict_get_def)
  qed
qed

lemma map_filter_ran: "set (List.map_filter m ks) \<subseteq> ran m"
  by (auto simp: List.map_filter_def ran_def)

lemma build_hierarchy_tree_closed:
  "build_hierarchy_tree m sid =
     Inr \<lparr>current = (case m sid of Some v \<Rightarrow> v | None \<Rightarrow> sid),
          parent = (if List.map_filter m (strict_prefixes sid) = [] then None
                    else Some (last (List.map_filter m (strict_prefixes sid)))),
          grandparent = (if length (List.map_filter m (strict_prefixes sid)) < 2 then None
                    else Some (List.map_filter m (strict_prefixes sid)
                                 ! (length (List.map_filter m (strict_prefixes sid)) - 2))),
          ancestors = List.map_filter m (strict_prefixes sid)\<rparr>"
proof -
  define parts where "parts = split_char (CHR ''.'') sid"
  define anc where "anc = List.map_filter m (strict_prefixes sid)"
  have loop: "ancestors_loop m parts [1..<length parts] [] = Inr anc"
    by (simp add: ancestors_loop_closed anc_def strict_prefixes_def parts_def
        List.map_filter_def Let_def filter_map comp_def)
  have par: "(if anc \<noteq> [] then ebind (py_get anc (- 1)) (\<lambda>p. Inr (Some p)) else Inr None)
      = Inr (if anc = [] then None else Some (last anc))"
    by (simp add: py_get_last)
  have gpar: "(if length anc \<ge> 2 then ebind (py_get anc (- 2)) (\<lambda>g. Inr (Some g)) else Inr None)
      = Inr (if length anc < 2 then None else Some (anc ! (length anc - 2)))"
    by (simp add: py_get_last_but_one)
  show ?thesis
    unfolding build_hierarchy_tree_def Let_def parts_def [symmetric] loop par gpar ebind_Inr
      anc_def [symmetric]
    by simp
qed

lemma split_acc_nonempty: "split_acc d cur s \<noteq> []"
  by (induction s arbitrary: cur) auto

lemma join_Cons: "ys \<noteq> [] \<Longrightarrow> join sep (x # ys) = x @ sep @ join sep ys"
  by (cases ys) simp_all

lemma prefixes_Cons:
  assumes "X \<noteq> []"
  shows "map (\<lambda>i. join sep (take i (x # X))) [1..<length (x # X)]
       = x # map (\<lambda>p. x @ sep @ p) (map (\<lambda>i. join sep (take i X)) [1..<length X])"
proof -
  have len: "0 < length X" using assms by simp
  have upt: "[1..<length (x # X)] = 1 # map Suc [1..<length X]"
  proof -
    have "[1..<length (x # X)] = 1 # [Suc 1..<Suc (length X)]"
      using len by (simp add: upt_conv_Cons del: upt_Suc)
    then show ?thesis by (simp only: map_Suc_upt)
  qed
  have step: "join sep (take (Suc j) (x # X)) = x @ sep @ join sep (take j X)"
    if "1 \<le> j" for j
  proof -
    from that have "take j X \<noteq> []" using assms by (simp add: take_eq_Nil)
    then show ?thesis by (simp add: join_Cons)
  qed
  show ?thesis
    unfolding upt using step by (simp add: comp_def)
qed

lemma split_acc_prefixes:
  "map (\<lambda>i. join ''.'' (take i (split_acc (CHR ''.'') cur s))) [1..<length (split_acc (CHR ''.'') cur s)]
     = map (\<lambda>p. cur @ p) (dot_prefixes s)"
proof (induction s arbitrary: cur)
  case Nil
  show ?case by simp
next
  case (Cons c cs)
  show ?case
  proof (cases "c = CHR ''.''")
    case True
    have "map (\<lambda>i. join ''.'' (take i (cur # split_acc (CHR ''.'') [] cs)))
            [1..<length (cur # split_acc (CHR ''.'') [] cs)]
        = cur # map (\<lambda>p. cur @ ''.'' @ p) (map (\<lambda>p. [] @ p) (dot_prefixes cs))"
      using prefixes_Cons [OF split_acc_nonempty, of "''.''" cur "CHR ''.''" "[]" cs]
      unfolding Cons.IH [of "[]"] .
    then show ?thesis using True by (simp add: comp_def)
  next
    case False
    then show ?thesis using Cons.IH [of "cur @ [c]"] by (simp add: comp_def)
  qed
qed

lemma strict_prefixes_dot: "strict_prefixes s = dot_prefixes s"
  using split_acc_prefixes [of "[]" s] by (simp add: strict_prefixes_def split_char_def Let_def)

lemma dot_prefixes_iff: "p \<in> set (dot_prefixes s) \<longleftrightarrow> (\<exists>r. s = p @ CHR ''.'' # r)"
proof (induction s arbitrary: p)
  case Nil
  show ?case by simp
next
  case (Cons c cs)
  show ?case
  proof (cases p)
    case Nil
    then show ?thesis by (auto simp: Cons.IH)
  next
    case (Cons a q)
    have "p \<in> set (dot_prefixes (c # cs)) \<longleftrightarrow> a = c \<and> q \<in> set (dot_prefixes cs)"
      using Cons by auto
    also have "\<dots> \<longleftrightarrow> a = c \<and> (\<exists>r. cs = q @ CHR ''.'' # r)"
      by (simp only: Cons.IH)
    also have "\<dots> \<longleftrightarrow> (\<exists>r. c # cs = p @ CHR ''.'' # r)"
      using Cons by auto
    finally show ?thesis .
  qed
qed

lemma dot_prefixes_sorted: "sorted_wrt (\<lambda>p q. length p < length q) (dot_prefixes s)"
  by (induction s) (auto simp: sorted_wrt_append sorted_wrt_map)

text \<open>
  C1, as it holds of the variants that keep a title map (\<open>OCP_parser_v3.py\<close>,
  \<open>ocp_parser.py\<close>, \<open>ocpparser3.py\<close>): for every section id and every title map,
  \<open>build_hierarchy_tree\<close> returns, without raising, the ancestors that are the full names
  of exactly the strict dot-separated prefixes of the id present in the map, the shorter
  prefix first; a prefix is strict when a dot and a rest follow it in the id.  Every
  ancestor is a value of the map, so none is made from the raw number.  The parent is the
  last ancestor and the grandparent the one before it, each absent when there is none.
\<close>

theorem build_hierarchy_tree_named:
  "\<exists>t. build_hierarchy_tree m sid = Inr t
     \<and> ancestors t = List.map_filter m (strict_prefixes sid)
     \<and> (\<forall>p. p \<in> set (strict_prefixes sid) \<longleftrightarrow> (\<exists>r. sid = p @ CHR ''.'' # r))
     \<and> sorted_wrt (\<lambda>p q. length p < length q) (strict_prefixes sid)
     \<and> set (ancestors t) \<subseteq> ran m
     \<and> parent t = (if ancestors t = [] then None else Some (last (ancestors t)))
     \<and> grandparent t = (if length (ancestors t) < 2 then None
                         else Some (ancestors t ! (length (ancestors t) - 2)))"
proof -
  have pre: "\<forall>p. p \<in> set (strict_prefixes sid) \<longleftrightarrow> (\<exists>r. sid = p @ CHR ''.'' # r)"
    by (simp only: strict_prefixes_dot dot_prefixes_iff) simp
  have srt: "sorted_wrt (\<lambda>p q. length p < length q) (strict_prefixes sid)"
    by (simp only: strict_prefixes_dot dot_prefixes_sorted)
  show ?thesis
    unfolding build_hierarchy_tree_closed using pre srt map_filter_ran [of m] by simp
qed

text \<open>
  The example of the spec: with the title map \<open>{"3": "3 Intro", "3.2": "3.2 Power"}\<close>, the id
  \<open>3.2.1\<close> has the ancestors \<open>3 Intro\<close> and \<open>3.2 Power\<close>.
\<close>

theorem build_hierarchy_tree_named_witness:
  "\<exists>t. build_hierarchy_tree [''3'' \<mapsto> ''3 Intro'', ''3.2'' \<mapsto> ''3.2 Power''] ''3.2.1'' = Inr t
     \<and> ancestors t = [''3 Intro'', ''3.2 Power'']
     \<and> parent t = Some ''3.2 Power''
     \<and> grandparent t = Some ''3 Intro''"
proof -
  define m :: "string \<rightharpoonup> string" where "m = [''3'' \<mapsto> ''3 Intro'', ''3.2'' \<mapsto> ''3.2 Power'']"
  have anc: "List.map_filter m (strict_prefixes ''3.2.1'') = [''3 Intro'', ''3.2 Power'']"
    by (simp add: strict_prefixes_def split_char_def m_def)
  obtain t where t: "build_hierarchy_tree m ''3.2.1'' = Inr t"
    "ancestors t = List.map_filter m (strict_prefixes ''3.2.1'')"
    "parent t = (if ancestors t = [] then None else Some (last (ancestors t)))"
    "grandparent t = (if length (ancestors t) < 2 then None
                         else Some (ancestors t ! (length (ancestors t) - 2)))"
    using build_hierarchy_tree_named [of m "''3.2.1''"] by blast
  have "ancestors t = [''3 Intro'', ''3.2 Power'']"
    by (simp only: t(2) anc)
  then have "parent t = Some ''3.2 Power''" "grandparent t = Some ''3 Intro''"
    using t(3,4) by simp_all
  with t(1) \<open>ancestors t = [''3 Intro'', ''3.2 Power'']\<close> show ?thesis
    unfolding m_def by blast
qed

text \<open>
  C1 fails for \<open>build_hierarchy_tree\<close> of \<open>OCP_parser.py\<close>: that variant has no title map, and
  for the id \<open>3.2\<close> it returns the ancestor \<open>3\<close>, made from the raw number, and the parent
  \<open>3\<close>, where no title map (here the empty one) holds a name for the prefix.
\<close>

theorem build_hierarchy_tree_OCP_parser_raw_numbers:
  "ancestors (build_hierarchy_tree_OCP_parser ''3.2'') = [''3'']
     \<and> parent (build_hierarchy_tree_OCP_parser ''3.2'') = Some ''3''
     \<and> List.map_filter (Map.empty :: string \<rightharpoonup> string) (strict_prefixes ''3.2'') = []"
  by (simp add: build_hierarchy_tree_OCP_parser_def strict_prefixes_def split_char_def)

section \<open>Facts about the extraction of requirements\<close>

lemma py_get_nat: "i < length xs \<Longrightarrow> py_get xs (int i) = Inr (xs ! i)"
  by (simp add: py_get_def)

lemma before_loop_closed:
  "k \<le> length ls \<Longrightarrow>
     before_loop ls k = Inr (case nearest_before ls k of None \<Rightarrow> [] | Some b \<Rightarrow> [b])"
proof (induction k)
  case 0
  show ?case by (simp add: nearest_before_def)
next
  case (Suc i)
  then have i: "i < length ls" by simp
  have tk: "rev (take (Suc i) ls) = ls ! i # rev (take i ls)"
    using i by (simp add: take_Suc_conv_app_nth)
  show ?case
    using Suc.IH i by (simp add: py_get_nat nearest_before_def tk)
qed

lemma after_loop_closed:
  "after_loop ls i = Inr (case find nonblank (drop i ls) of None \<Rightarrow> [] | Some a \<Rightarrow> [a])"
proof (induction ls i rule: after_loop.induct)
  case (1 ls i)
  show ?case
  proof (cases "i < length ls")
    case True
    have dr: "drop i ls = ls ! i # drop (Suc i) ls"
      using True by (simp add: Cons_nth_drop_Suc)
    show ?thesis
    proof (cases "strip (ls ! i) \<noteq> []")
      case True
      with \<open>i < length ls\<close> show ?thesis
        by (subst after_loop.simps) (simp add: py_get_nat dr)
    next
      case False
      with \<open>i < length ls\<close> "1.IH" [of "ls ! i"] show ?thesis
        by (subst after_loop.simps) (simp add: py_get_nat dr)
    qed
  next
    case False
    then show ?thesis by (subst after_loop.simps) simp
  qed
qed

lemma next_nonblank_closed:
  "\<forall>i \<in> set js. i < length ls \<Longrightarrow>
     next_nonblank ls js = Inr (find nonblank (map ((!) ls) js))"
  by (induction js) (simp_all add: py_get_nat)

lemma map_nth_upt_take: "i \<le> length ls \<Longrightarrow> map ((!) ls) [0..<i] = take i ls"
  by (metis map_nth take_map take_upt add_0)

lemma map_nth_rev_upt: "i \<le> length ls \<Longrightarrow> map ((!) ls) (rev [0..<i]) = rev (take i ls)"
  by (simp add: rev_map [symmetric] map_nth_upt_take)

lemma map_nth_upt_drop: "map ((!) ls) [Suc i..<length ls] = drop (Suc i) ls"
  by (metis drop_map map_nth drop_upt add_0 plus_1_eq_Suc) 

lemma anchor_detection_closed:
  "anchor_detection line (case opt of None \<Rightarrow> [] | Some a \<Rightarrow> [a]) = Inr (detected_anchor line opt)"
  by (simp add: anchor_detection_def detected_anchor_def py_get_def split: option.splits)

lemma anchor_detection_flat_closed: "anchor_detection_flat line opt = detected_anchor line opt"
  by (simp add: anchor_detection_flat_def detected_anchor_def split: option.splits)

lemma zip_upt_nth: "zip [0..<length ls] ls = map (\<lambda>i. (i, ls ! i)) [0..<length ls]"
  by (rule nth_equalityI) simp_all

lemma requirements_loop_closed:
  "\<forall>i \<in> set js. i < length ls \<Longrightarrow>
     requirements_loop ls sid h ph pg (map (\<lambda>i. (i, ls ! i)) js) reqs =
       Inr (reqs @ map (\<lambda>(n, i). requirement_at ls sid h ph pg n i)
              (List.enumerate (length reqs) (filter (\<lambda>i. SHALL_PATTERN_search (ls ! i)) js)))"
proof (induction js arbitrary: reqs)
  case Nil
  show ?case by simp
next
  case (Cons i js)
  then have i: "i < length ls" and js: "\<forall>i \<in> set js. i < length ls" by simp_all
  show ?case
  proof (cases "SHALL_PATTERN_search (ls ! i)")
    case False
    then show ?thesis using Cons.IH [OF js, of reqs] by simp
  next
    case True
    have b: "before_loop ls i = Inr (case nearest_before ls i of None \<Rightarrow> [] | Some b \<Rightarrow> [b])"
      using i by (simp add: before_loop_closed)
    have a: "after_loop ls (Suc i) = Inr (case nearest_after ls i of None \<Rightarrow> [] | Some a \<Rightarrow> [a])"
      by (simp add: after_loop_closed nearest_after_def)
    show ?thesis
      using True Cons.IH [OF js, of "reqs @ [requirement_at ls sid h ph pg (length reqs) i]"]
      by (simp add: b a anchor_detection_closed requirement_at_def)
  qed
qed

lemma extract_requirements_closed:
  "extract_requirements_with_context ls sid h ph pg =
     Inr (map (\<lambda>(n, i). requirement_at ls sid h ph pg n i) (List.enumerate 0 (shall_indices ls)))"
  using requirements_loop_closed [of "[0..<length ls]" ls sid h ph pg "[]"]
  by (simp add: extract_requirements_with_context_def zip_upt_nth shall_indices_def)

lemma flat_records_loop_closed:
  "\<forall>i \<in> set js. i < length ls \<Longrightarrow>
     flat_records_loop kp ls data tree ref (map (\<lambda>i. (i, ls ! i)) js) records =
       Inr (records @ map (flat_record_at kp ls data tree ref)
              (filter (\<lambda>i. SHALL_PATTERN_search (ls ! i)) js))"
proof (induction js arbitrary: records)
  case Nil
  show ?case by simp
next
  case (Cons i js)
  then have i: "i < length ls" and js: "\<forall>i \<in> set js. i < length ls" by simp_all
  show ?case
  proof (cases "SHALL_PATTERN_search (ls ! i)")
    case False
    then show ?thesis using Cons.IH [OF js, of records] by simp
  next
    case True
    have b: "next_nonblank ls (rev [0..<i]) = Inr (nearest_before ls i)"
      using i by (simp add: next_nonblank_closed map_nth_rev_upt nearest_before_def del: map_append)
    have a: "next_nonblank ls [Suc i..<length ls] = Inr (nearest_after ls i)"
      using next_nonblank_closed [of "[Suc i..<length ls]" ls]
      by (simp add: map_nth_upt_drop nearest_after_def)
    show ?thesis
      using True Cons.IH [OF js, of "records @ [flat_record_at kp ls data tree ref i]"]
      by (simp add: b a anchor_detection_flat_closed flat_record_at_def)
  qed
qed

section \<open>Facts about the segmenter\<close>

lemma build_hierarchy_tree_of: "build_hierarchy_tree m sid = Inr (hierarchy_of m sid)"
  by (simp add: build_hierarchy_tree_closed hierarchy_of_def Let_def)

lemma finalize_section_closed: "finalize_section m data = Inr (section_of m data)"
  by (simp add: finalize_section_def section_of_def build_hierarchy_tree_of
      extract_requirements_closed Let_def)

lemma parse_line_header:
  "SECTION_PATTERN_match line = Some (n, w, t) \<Longrightarrow>
     parse_line pg st line =
       Inr \<lparr>sections = sections st @ (case open_section st of None \<Rightarrow> []
                                       | Some c \<Rightarrow> [section_of (section_title_map st) c]),
            open_section = Some \<lparr>number = n, open_title = t, full_name = n @ '' '' @ t,
                                  open_page_number = pg, lines = []\<rparr>,
            section_title_map = (section_title_map st)(n \<mapsto> n @ '' '' @ t)\<rparr>"
  by (simp add: parse_line_def finalize_section_closed split: option.splits)

lemma parse_line_other:
  "SECTION_PATTERN_match line = None \<Longrightarrow>
     parse_line pg st line =
       Inr (case open_section st of
              Some c \<Rightarrow> st\<lparr>open_section := Some (c\<lparr>lines := lines c @ [line]\<rparr>)\<rparr>
            | None \<Rightarrow> st)"
  by (simp add: parse_line_def split: option.splits)

lemma parse_end_closed:
  "parse_end st =
     Inr (case open_section st of
            Some c \<Rightarrow> st\<lparr>sections := sections st @ [section_of (section_title_map st) c]\<rparr>
          | None \<Rightarrow> st)"
  by (simp add: parse_end_def finalize_section_closed split: option.splits)

lemma parse_lines_stream: "parse_lines pg st ls = parse_stream st (map (Pair pg) ls)"
  by (induction ls arbitrary: st) (simp_all split: sum.splits)

lemma parse_stream_append:
  "parse_stream st (xs @ ys) = ebind (parse_stream st xs) (\<lambda>st'. parse_stream st' ys)"
  by (induction xs arbitrary: st) (auto split: sum.splits)

lemma parse_pages_stream: "parse_pages st pages = parse_stream st (page_lines pages)"
proof (induction pages arbitrary: st)
  case Nil
  show ?case by (simp add: page_lines_def)
next
  case (Cons p pages)
  obtain pg tx where p: "p = (pg, tx)" by (cases p)
  have pl: "page_lines (p # pages) = map (Pair pg) (splitlines tx) @ page_lines pages"
    by (simp add: page_lines_def p)
  show ?case
    unfolding pl parse_stream_append
    by (simp add: p parse_lines_stream Cons.IH ebind_def split: sum.splits)
qed

lemma parse_line_total: "\<exists>st'. parse_line pg st line = Inr st'"
proof (cases "SECTION_PATTERN_match line")
  case None
  then show ?thesis by (simp add: parse_line_other)
next
  case (Some g)
  obtain n w t where "g = (n, w, t)" by (cases g)
  with Some show ?thesis by (simp add: parse_line_header)
qed

lemma parse_stream_total: "\<exists>st'. parse_stream st xs = Inr st'"
proof (induction xs arbitrary: st)
  case Nil
  show ?case by simp
next
  case (Cons x xs)
  obtain pg l where x: "x = (pg, l)" by (cases x)
  obtain st1 where st1: "parse_line pg st l = Inr st1" using parse_line_total by blast
  show ?case using Cons.IH [of st1] by (simp add: x st1)
qed

lemma parse_total: "\<exists>secs. parse pages = Inr secs"
proof -
  obtain st1 where "parse_stream initial_state (page_lines pages) = Inr st1"
    using parse_stream_total by blast
  then show ?thesis
    by (simp add: parse_def parse_run_def parse_pages_stream parse_end_closed)
qed

lemma section_view_of:
  "section_view (section_of m c) =
     (open_page_number c, ''section_'' @ replace_char (CHR ''.'') (CHR ''_'') (number c),
      full_name c, open_title c, join [CHR 0x0A] (lines c))"
  by (simp add: section_view_def section_of_def Let_def)

lemma parse_stream_segments:
  "\<exists>st' st''. parse_stream st xs = Inr st' \<and> parse_end st' = Inr st''
     \<and> map section_view (sections st'') =
         map section_view (sections st)
         @ (case open_section st of
              None \<Rightarrow> []
            | Some c \<Rightarrow>
                [(open_page_number c, ''section_'' @ replace_char (CHR ''.'') (CHR ''_'') (number c),
                  full_name c, open_title c,
                  join [CHR 0x0A] (lines c @ map snd (takeWhile (\<lambda>x. \<not> is_header (snd x)) xs)))])
         @ map segment_view (segments xs)"
proof (induction xs arbitrary: st)
  case Nil
  show ?case
    by (cases "open_section st") (simp_all add: parse_end_closed section_view_of)
next
  case (Cons x xs)
  obtain pg l where x: "x = (pg, l)" by (cases x)
  show ?case
  proof (cases "SECTION_PATTERN_match l")
    case None
    then have nh: "\<not> is_header l" by (simp add: is_header_def)
    define st1 where "st1 = (case open_section st of
              Some c \<Rightarrow> st\<lparr>open_section := Some (c\<lparr>lines := lines c @ [l]\<rparr>)\<rparr>
            | None \<Rightarrow> st)"
    have step: "parse_line pg st l = Inr st1"
      using None by (simp add: parse_line_other st1_def)
    from Cons.IH [of st1] obtain st' st'' where
      run: "parse_stream st1 xs = Inr st'" "parse_end st' = Inr st''"
      and secs: "map section_view (sections st'') =
         map section_view (sections st1)
         @ (case open_section st1 of
              None \<Rightarrow> []
            | Some c \<Rightarrow>
                [(open_page_number c, ''section_'' @ replace_char (CHR ''.'') (CHR ''_'') (number c),
                  full_name c, open_title c,
                  join [CHR 0x0A] (lines c @ map snd (takeWhile (\<lambda>x. \<not> is_header (snd x)) xs)))])
         @ map segment_view (segments xs)"
      by blast
    have "parse_stream st (x # xs) = Inr st'"
      by (simp add: x step run)
    moreover have "map section_view (sections st'') =
         map section_view (sections st)
         @ (case open_section st of
              None \<Rightarrow> []
            | Some c \<Rightarrow>
                [(open_page_number c, ''section_'' @ replace_char (CHR ''.'') (CHR ''_'') (number c),
                  full_name c, open_title c,
                  join [CHR 0x0A] (lines c @ map snd (takeWhile (\<lambda>x. \<not> is_header (snd x)) (x # xs))))])
         @ map segment_view (segments (x # xs))"
      unfolding secs by (cases "open_section st") (simp_all add: st1_def x nh None)
    ultimately show ?thesis using run(2) by blast
  next
    case (Some g)
    obtain n w t where g: "g = (n, w, t)" by (cases g)
    have h: "is_header l" using Some by (simp add: is_header_def)
    define st1 where "st1 = \<lparr>sections = sections st @ (case open_section st of None \<Rightarrow> []
                                       | Some c \<Rightarrow> [section_of (section_title_map st) c]),
            open_section = Some \<lparr>number = n, open_title = t, full_name = n @ '' '' @ t,
                                  open_page_number = pg, lines = []\<rparr>,
            section_title_map = (section_title_map st)(n \<mapsto> n @ '' '' @ t)\<rparr>"
    have step: "parse_line pg st l = Inr st1"
      using Some g by (simp add: parse_line_header st1_def)
    from Cons.IH [of st1] obtain st' st'' where
      run: "parse_stream st1 xs = Inr st'" "parse_end st' = Inr st''"
      and secs: "map section_view (sections st'') =
         map section_view (sections st1)
         @ (case open_section st1 of
              None \<Rightarrow> []
            | Some c \<Rightarrow>
                [(open_page_number c, ''section_'' @ replace_char (CHR ''.'') (CHR ''_'') (number c),
                  full_name c, open_title c,
                  join [CHR 0x0A] (lines c @ map snd (takeWhile (\<lambda>x. \<not> is_header (snd x)) xs)))])
         @ map segment_view (segments xs)"
      by blast
    have "parse_stream st (x # xs) = Inr st'"
      by (simp add: x step run)
    moreover have "map section_view (sections st'') =
         map section_view (sections st)
         @ (case open_section st of
              None \<Rightarrow> []
            | Some c \<Rightarrow>
                [(open_page_number c, ''section_'' @ replace_char (CHR ''.'') (CHR ''_'') (number c),
                  full_name c, open_title c,
                  join [CHR 0x0A] (lines c @ map snd (takeWhile (\<lambda>x. \<not> is_header (snd x)) (x # xs))))])
         @ map segment_view (segments (x # xs))"
      unfolding secs
      by (cases "open_section st")
        (simp_all add: st1_def x h Some g section_view_of segment_view_def)
    ultimately show ?thesis using run(2) by blast
  qed
qed

lemma length_segments: "length (segments xs) = length (filter (\<lambda>x. is_header (snd x)) xs)"
  by (induction xs) (auto simp: is_header_def split: option.splits)

lemma parse_stream_title_map:
  "parse_stream st xs = Inr st' \<Longrightarrow>
     section_title_map st' = section_title_map st ++ map_of (rev (headers_of xs))"
proof (induction xs arbitrary: st)
  case Nil
  then show ?case by (auto simp: headers_of_def)
next
  case (Cons x xs)
  obtain pg l where x: "x = (pg, l)" by (cases x)
  show ?case
  proof (cases "SECTION_PATTERN_match l")
    case None
    define st1 where "st1 = (case open_section st of
              Some c \<Rightarrow> st\<lparr>open_section := Some (c\<lparr>lines := lines c @ [l]\<rparr>)\<rparr>
            | None \<Rightarrow> st)"
    have step: "parse_line pg st l = Inr st1"
      using None by (simp add: parse_line_other st1_def)
    have same: "section_title_map st1 = section_title_map st"
      by (simp add: st1_def split: option.splits)
    have "parse_stream st1 xs = Inr st'"
      using Cons.prems by (simp add: x step)
    from Cons.IH [OF this] show ?thesis
      by (simp add: same headers_of_def x None)
  next
    case (Some g)
    obtain n w t where g: "g = (n, w, t)" by (cases g)
    define st1 where "st1 = \<lparr>sections = sections st @ (case open_section st of None \<Rightarrow> []
                                       | Some c \<Rightarrow> [section_of (section_title_map st) c]),
            open_section = Some \<lparr>number = n, open_title = t, full_name = n @ '' '' @ t,
                                  open_page_number = pg, lines = []\<rparr>,
            section_title_map = (section_title_map st)(n \<mapsto> n @ '' '' @ t)\<rparr>"
    have step: "parse_line pg st l = Inr st1"
      using Some g by (simp add: parse_line_header st1_def)
    have upd: "section_title_map st1 = (section_title_map st)(n \<mapsto> n @ '' '' @ t)"
      by (simp add: st1_def)
    have "parse_stream st1 xs = Inr st'"
      using Cons.prems by (simp add: x step)
    from Cons.IH [OF this]
    have ih: "section_title_map st' = (section_title_map st)(n \<mapsto> n @ '' '' @ t) ++ map_of (rev (headers_of xs))"
      by (simp only: upd)
    have hs: "headers_of (x # xs) = (n, n @ '' '' @ t) # headers_of xs"
      by (simp add: headers_of_def x Some g)
    have e0: "map_of (rev (headers_of (x # xs))) = [n \<mapsto> n @ '' '' @ t] ++ map_of (rev (headers_of xs))"
      unfolding hs by (simp add: map_of_append)
    have e1: "section_title_map st ++ [n \<mapsto> n @ '' '' @ t] = (section_title_map st)(n \<mapsto> n @ '' '' @ t)"
      by simp
    have "section_title_map st ++ map_of (rev (headers_of (x # xs)))
        = (section_title_map st)(n \<mapsto> n @ '' '' @ t) ++ map_of (rev (headers_of xs))"
      unfolding e0 map_add_assoc e1 ..
    then show ?thesis unfolding ih by (rule sym)
  qed
qed

section \<open>Facts about the flat records\<close>

lemma build_hierarchy_tree_flat_of: "build_hierarchy_tree_flat m sid = Inr (flat_tree_of m sid)"
proof -
  define parts where "parts = split_char (CHR ''.'') sid"
  define anc where "anc = List.map_filter m (strict_prefixes sid)"
  have loop: "ancestors_loop m parts [1..<length parts] [] = Inr anc"
    by (simp add: ancestors_loop_closed anc_def strict_prefixes_def parts_def
        List.map_filter_def Let_def filter_map comp_def)
  have par: "(if anc \<noteq> [] then ebind (py_get anc (- 1)) (\<lambda>p. Inr (Some p)) else Inr None)
      = Inr (if anc = [] then None else Some (last anc))"
    by (simp add: py_get_last)
  have gpar: "(if length anc > 1 then ebind (py_get anc (- 2)) (\<lambda>g. Inr (Some g)) else Inr None)
      = Inr (if length anc < 2 then None else Some (anc ! (length anc - 2)))"
    by (simp add: py_get_last_but_one)
  show ?thesis
    unfolding build_hierarchy_tree_flat_def Let_def parts_def [symmetric] loop par gpar ebind_Inr
    by (simp add: flat_tree_of_def hierarchy_of_def Let_def anc_def)
qed

lemma finalize_section_flat_closed:
  "finalize_section_flat kp m store data =
     Inr (flat_records_of kp m (length store) data,
          store @ [flat_metadata_of data (length (flat_records_of kp m (length store) data))])"
proof -
  define ls where "ls = flat_lines data"
  have loop: "flat_records_loop kp ls data tree ref (zip [0..<length ls] ls) [] =
      Inr (map (flat_record_at kp ls data tree ref) (shall_indices ls))" for tree ref
    using flat_records_loop_closed [of "[0..<length ls]" ls kp data tree ref "[]"]
    by (simp add: zip_upt_nth shall_indices_def)
  have get: "py_get (store @ [md]) (int (length store)) = Inr md" for md :: SectionMetadata_flat
    by (simp add: py_get_def)
  show ?thesis
    unfolding finalize_section_flat_def Let_def ls_def [symmetric] build_hierarchy_tree_flat_of
      ebind_Inr loop get
    by (simp add: flat_records_of_def flat_metadata_of_def Let_def ls_def)
qed

lemma finalize_open_flat_closed:
  "finalize_open_flat kp st =
     Inr (case open_section_flat st of
            Some c \<Rightarrow>
              st\<lparr>output_records := output_records st
                     @ flat_records_of kp (title_map_flat st) (length (metadata_store st)) c,
                 metadata_store := metadata_store st
                     @ [flat_metadata_of c (length (flat_records_of kp (title_map_flat st)
                                                      (length (metadata_store st)) c))]\<rparr>
          | None \<Rightarrow> st)"
  by (simp add: finalize_open_flat_def finalize_section_flat_closed split: option.splits)

lemma parse_line_flat_total: "\<exists>st'. parse_line_flat kp pg st line = Inr st'"
  by (cases "SECTION_PATTERN_match line")
    (auto simp: parse_line_flat_def finalize_open_flat_closed split: option.splits)

lemma parse_lines_flat_stream:
  "parse_lines_flat kp pg st ls = parse_stream_flat kp st (map (Pair pg) ls)"
  by (induction ls arbitrary: st) (simp_all split: sum.splits)

lemma parse_stream_flat_append:
  "parse_stream_flat kp st (xs @ ys) =
     ebind (parse_stream_flat kp st xs) (\<lambda>st'. parse_stream_flat kp st' ys)"
  by (induction xs arbitrary: st) (auto split: sum.splits)

lemma parse_pages_flat_stream:
  "parse_pages_flat kp st pages = parse_stream_flat kp st (page_lines pages)"
proof (induction pages arbitrary: st)
  case Nil
  show ?case by (simp add: page_lines_def)
next
  case (Cons p pages)
  obtain pg tx where p: "p = (pg, tx)" by (cases p)
  have pl: "page_lines (p # pages) = map (Pair pg) (splitlines tx) @ page_lines pages"
    by (simp add: page_lines_def p)
  show ?case
    unfolding pl parse_stream_flat_append
    by (simp add: p parse_lines_flat_stream Cons.IH ebind_def split: sum.splits)
qed

lemma parse_stream_flat_total: "\<exists>st'. parse_stream_flat kp st xs = Inr st'"
proof (induction xs arbitrary: st)
  case Nil
  show ?case by simp
next
  case (Cons x xs)
  obtain pg l where x: "x = (pg, l)" by (cases x)
  obtain st1 where st1: "parse_line_flat kp pg st l = Inr st1"
    using parse_line_flat_total by blast
  show ?case using Cons.IH [of st1] by (simp add: x st1)
qed

lemma parse_flat_total: "\<exists>st. parse_flat kp pages = Inr st"
proof -
  obtain st1 where "parse_stream_flat kp initial_state_flat (page_lines pages) = Inr st1"
    using parse_stream_flat_total by blast
  then show ?thesis
    by (simp add: parse_flat_def parse_pages_flat_stream finalize_open_flat_closed)
qed

lemma length_flat_records_of: "length (flat_records_of kp m ref data) = flat_count (flat_lines data)"
  by (simp add: flat_records_of_def flat_count_def)

lemma parse_line_flat_header:
  "SECTION_PATTERN_match line = Some (n, w, t) \<Longrightarrow>
     parse_line_flat kp pg st line =
       Inr \<lparr>output_records = output_records st
                @ (case open_section_flat st of None \<Rightarrow> []
                   | Some c \<Rightarrow> flat_records_of kp (title_map_flat st) (length (metadata_store st)) c),
            open_section_flat = Some \<lparr>flat_number = n, open_hierarchy = n @ '' '' @ t,
                                       flat_open_page_number = pg, flat_lines = []\<rparr>,
            title_map_flat = (title_map_flat st)(n \<mapsto> n @ '' '' @ t),
            metadata_store = metadata_store st
                @ (case open_section_flat st of None \<Rightarrow> []
                   | Some c \<Rightarrow> [flat_metadata_of c (flat_count (flat_lines c))])\<rparr>"
  by (simp add: parse_line_flat_def finalize_open_flat_closed length_flat_records_of
      split: option.splits)

lemma parse_line_flat_other:
  "SECTION_PATTERN_match line = None \<Longrightarrow>
     parse_line_flat kp pg st line =
       Inr (case open_section_flat st of
              Some c \<Rightarrow> st\<lparr>open_section_flat := Some (c\<lparr>flat_lines := flat_lines c @ [line]\<rparr>)\<rparr>
            | None \<Rightarrow> st)"
  by (simp add: parse_line_flat_def split: option.splits)

lemma flat_metadata_of_lines:
  "flat_metadata_of (c\<lparr>flat_lines := ls\<rparr>) k =
     flat_metadata_of \<lparr>flat_number = flat_number c, open_hierarchy = open_hierarchy c,
                       flat_open_page_number = flat_open_page_number c, flat_lines = ls\<rparr> k"
  by (simp add: flat_metadata_of_def)

lemma parse_stream_flat_store:
  "\<exists>st' st''. parse_stream_flat kp st xs = Inr st' \<and> finalize_open_flat kp st' = Inr st''
     \<and> metadata_store st'' =
         metadata_store st
         @ (case open_section_flat st of
              None \<Rightarrow> []
            | Some c \<Rightarrow>
                [flat_metadata_of
                   (c\<lparr>flat_lines := flat_lines c @ map snd (takeWhile (\<lambda>x. \<not> is_header (snd x)) xs)\<rparr>)
                   (flat_count (flat_lines c @ map snd (takeWhile (\<lambda>x. \<not> is_header (snd x)) xs)))])
         @ map segment_metadata (segments xs)"
proof (induction xs arbitrary: st)
  case Nil
  show ?case
    by (cases "open_section_flat st")
      (simp_all add: finalize_open_flat_closed length_flat_records_of)
next
  case (Cons x xs)
  obtain pg l where x: "x = (pg, l)" by (cases x)
  show ?case
  proof (cases "SECTION_PATTERN_match l")
    case None
    then have nh: "\<not> is_header l" by (simp add: is_header_def)
    define st1 where "st1 = (case open_section_flat st of
              Some c \<Rightarrow> st\<lparr>open_section_flat := Some (c\<lparr>flat_lines := flat_lines c @ [l]\<rparr>)\<rparr>
            | None \<Rightarrow> st)"
    have step: "parse_line_flat kp pg st l = Inr st1"
      using None by (simp add: parse_line_flat_other st1_def)
    from Cons.IH [of st1] obtain st' st'' where
      run: "parse_stream_flat kp st1 xs = Inr st'" "finalize_open_flat kp st' = Inr st''"
      and store: "metadata_store st'' =
         metadata_store st1
         @ (case open_section_flat st1 of
              None \<Rightarrow> []
            | Some c \<Rightarrow>
                [flat_metadata_of
                   (c\<lparr>flat_lines := flat_lines c @ map snd (takeWhile (\<lambda>x. \<not> is_header (snd x)) xs)\<rparr>)
                   (flat_count (flat_lines c @ map snd (takeWhile (\<lambda>x. \<not> is_header (snd x)) xs)))])
         @ map segment_metadata (segments xs)"
      by blast
    have "parse_stream_flat kp st (x # xs) = Inr st'"
      by (simp add: x step run)
    moreover have "metadata_store st'' =
         metadata_store st
         @ (case open_section_flat st of
              None \<Rightarrow> []
            | Some c \<Rightarrow>
                [flat_metadata_of
                   (c\<lparr>flat_lines := flat_lines c @ map snd (takeWhile (\<lambda>x. \<not> is_header (snd x)) (x # xs))\<rparr>)
                   (flat_count (flat_lines c @ map snd (takeWhile (\<lambda>x. \<not> is_header (snd x)) (x # xs))))])
         @ map segment_metadata (segments (x # xs))"
      unfolding store by (cases "open_section_flat st") (simp_all add: st1_def x nh None)
    ultimately show ?thesis using run(2) by blast
  next
    case (Some g)
    obtain n w t where g: "g = (n, w, t)" by (cases g)
    have h: "is_header l" using Some by (simp add: is_header_def)
    define st1 where "st1 = \<lparr>output_records = output_records st
                @ (case open_section_flat st of None \<Rightarrow> []
                   | Some c \<Rightarrow> flat_records_of kp (title_map_flat st) (length (metadata_store st)) c),
            open_section_flat = Some \<lparr>flat_number = n, open_hierarchy = n @ '' '' @ t,
                                       flat_open_page_number = pg, flat_lines = []\<rparr>,
            title_map_flat = (title_map_flat st)(n \<mapsto> n @ '' '' @ t),
            metadata_store = metadata_store st
                @ (case open_section_flat st of None \<Rightarrow> []
                   | Some c \<Rightarrow> [flat_metadata_of c (flat_count (flat_lines c))])\<rparr>"
    have step: "parse_line_flat kp pg st l = Inr st1"
      using Some g by (simp add: parse_line_flat_header st1_def)
    from Cons.IH [of st1] obtain st' st'' where
      run: "parse_stream_flat kp st1 xs = Inr st'" "finalize_open_flat kp st' = Inr st''"
      and store: "metadata_store st'' =
         metadata_store st1
         @ (case open_section_flat st1 of
              None \<Rightarrow> []
            | Some c \<Rightarrow>
                [flat_metadata_of
                   (c\<lparr>flat_lines := flat_lines c @ map snd (takeWhile (\<lambda>x. \<not> is_header (snd x)) xs)\<rparr>)
                   (flat_count (flat_lines c @ map snd (takeWhile (\<lambda>x. \<not> is_header (snd x)) xs)))])
         @ map segment_metadata (segments xs)"
      by blast
    have "parse_stream_flat kp st (x # xs) = Inr st'"
      by (simp add: x step run)
    moreover have "metadata_store st'' =
         metadata_store st
         @ (case open_section_flat st of
              None \<Rightarrow> []
            | Some c \<Rightarrow>
                [flat_metadata_of
                   (c\<lparr>flat_lines := flat_lines c @ map snd (takeWhile (\<lambda>x. \<not> is_header (snd x)) (x # xs))\<rparr>)
                   (flat_count (flat_lines c @ map snd (takeWhile (\<lambda>x. \<not> is_header (snd x)) (x # xs))))])
         @ map segment_metadata (segments (x # xs))"
      unfolding store
      by (cases "open_section_flat st")
        (simp_all add: st1_def x h Some g segment_metadata_def flat_metadata_of_lines)
    ultimately show ?thesis using run(2) by blast
  qed
qed

lemma parse_stream_flat_title_map:
  "parse_stream_flat kp st xs = Inr st' \<Longrightarrow>
     title_map_flat st' = title_map_flat st ++ map_of (rev (headers_of xs))"
proof (induction xs arbitrary: st)
  case Nil
  then show ?case by (auto simp: headers_of_def)
next
  case (Cons x xs)
  obtain pg l where x: "x = (pg, l)" by (cases x)
  show ?case
  proof (cases "SECTION_PATTERN_match l")
    case None
    define st1 where "st1 = (case open_section_flat st of
              Some c \<Rightarrow> st\<lparr>open_section_flat := Some (c\<lparr>flat_lines := flat_lines c @ [l]\<rparr>)\<rparr>
            | None \<Rightarrow> st)"
    have step: "parse_line_flat kp pg st l = Inr st1"
      using None by (simp add: parse_line_flat_other st1_def)
    have same: "title_map_flat st1 = title_map_flat st"
      by (simp add: st1_def split: option.splits)
    have "parse_stream_flat kp st1 xs = Inr st'"
      using Cons.prems by (simp add: x step)
    from Cons.IH [OF this] show ?thesis
      by (simp add: same headers_of_def x None)
  next
    case (Some g)
    obtain n w t where g: "g = (n, w, t)" by (cases g)
    obtain st1 where step: "parse_line_flat kp pg st l = Inr st1"
      and upd: "title_map_flat st1 = (title_map_flat st)(n \<mapsto> n @ '' '' @ t)"
      using Some g by (simp add: parse_line_flat_header)
    have "parse_stream_flat kp st1 xs = Inr st'"
      using Cons.prems by (simp add: x step)
    from Cons.IH [OF this]
    have ih: "title_map_flat st' = (title_map_flat st)(n \<mapsto> n @ '' '' @ t) ++ map_of (rev (headers_of xs))"
      by (simp only: upd)
    have hs: "headers_of (x # xs) = (n, n @ '' '' @ t) # headers_of xs"
      by (simp add: headers_of_def x Some g)
    have e0: "map_of (rev (headers_of (x # xs))) = [n \<mapsto> n @ '' '' @ t] ++ map_of (rev (headers_of xs))"
      unfolding hs by (simp add: map_of_append)
    have e1: "title_map_flat st ++ [n \<mapsto> n @ '' '' @ t] = (title_map_flat st)(n \<mapsto> n @ '' '' @ t)"
      by simp
    have "title_map_flat st ++ map_of (rev (headers_of (x # xs)))
        = (title_map_flat st)(n \<mapsto> n @ '' '' @ t) ++ map_of (rev (headers_of xs))"
      unfolding e0 map_add_assoc e1 ..
    then show ?thesis unfolding ih by (rule sym)
  qed
qed

lemma finalize_open_flat_title_map:
  "finalize_open_flat kp st = Inr st' \<Longrightarrow> title_map_flat st' = title_map_flat st"
  by (auto simp: finalize_open_flat_closed split: option.splits)

lemma parse_end_title_map: "parse_end st = Inr st' \<Longrightarrow> section_title_map st' = section_title_map st"
  by (auto simp: parse_end_closed split: option.splits)

section \<open>The claims about the segmenter and the title map\<close>

text \<open>
  C3: the segmenter, reading the lines in the order of the stream, finalizes one section
  for each header line and no other.  The sections that \<open>parse\<close> of \<open>OCP_parser_v3.py\<close>
  returns are, in order, the segments of the stream: each has the page, the number and
  the title of its header line, and as content the lines after that header up to the next
  header or the end of the stream, so every line after a header is appended to the section
  that is open, the lines before the first header are in no section, and the section open
  at the end is finalized too.  Their number is the number of header lines.  For \<open>parse\<close>
  of \<open>ocp_parser.py\<close> the same holds of the metadata objects, one for each call of
  \<open>_finalize_section\<close>.
\<close>

theorem segmenter_one_section_per_header:
  "(\<exists>secs. parse pages = Inr secs
      \<and> map section_view secs = map segment_view (segments (page_lines pages))
      \<and> length secs = length (filter (\<lambda>x. is_header (snd x)) (page_lines pages)))
   \<and> (\<exists>st. parse_flat kp pages = Inr st
      \<and> metadata_store st = map segment_metadata (segments (page_lines pages))
      \<and> length (metadata_store st) = length (filter (\<lambda>x. is_header (snd x)) (page_lines pages)))"
proof
  obtain st' st'' where run: "parse_stream initial_state (page_lines pages) = Inr st'"
    "parse_end st' = Inr st''"
    and secs: "map section_view (sections st'') = map segment_view (segments (page_lines pages))"
    using parse_stream_segments [of initial_state "page_lines pages"]
    by (auto simp: initial_state_def)
  have p: "parse pages = Inr (sections st'')"
    by (simp add: parse_def parse_run_def parse_pages_stream run)
  have "length (sections st'') = length (segments (page_lines pages))"
    using secs by (metis length_map)
  with p secs show "\<exists>secs. parse pages = Inr secs
      \<and> map section_view secs = map segment_view (segments (page_lines pages))
      \<and> length secs = length (filter (\<lambda>x. is_header (snd x)) (page_lines pages))"
    by (simp add: length_segments)
next
  obtain st' st'' where run: "parse_stream_flat kp initial_state_flat (page_lines pages) = Inr st'"
    "finalize_open_flat kp st' = Inr st''"
    and store: "metadata_store st'' = map segment_metadata (segments (page_lines pages))"
    using parse_stream_flat_store [of kp initial_state_flat "page_lines pages"]
    by (auto simp: initial_state_flat_def)
  have p: "parse_flat kp pages = Inr st''"
    by (simp add: parse_flat_def parse_pages_flat_stream run)
  with store show "\<exists>st. parse_flat kp pages = Inr st
      \<and> metadata_store st = map segment_metadata (segments (page_lines pages))
      \<and> length (metadata_store st) = length (filter (\<lambda>x. is_header (snd x)) (page_lines pages))"
    by (simp add: length_segments)
qed

text \<open>
  A document with a line before the first header and a section that runs over a page break.
\<close>

theorem segmenter_one_section_per_header_witness:
  "\<exists>secs. parse [(1, ''Preface\<newline>3 Power\<newline>Overview text.''), (2, ''More text.\<newline>3.1 Power Budget'')] = Inr secs
     \<and> map section_view secs =
         [(1, ''section_3'', ''3 Power'', ''Power'', ''Overview text.\<newline>More text.''),
          (2, ''section_3_1'', ''3.1 Power Budget'', ''Power Budget'', [])]
     \<and> length secs = 2"
proof -
  have segs: "map segment_view (segments (page_lines
         [(1, ''Preface\<newline>3 Power\<newline>Overview text.''), (2, ''More text.\<newline>3.1 Power Budget'')])) =
         [(1, ''section_3'', ''3 Power'', ''Power'', ''Overview text.\<newline>More text.''),
          (2, ''section_3_1'', ''3.1 Power Budget'', ''Power Budget'', [])]"
    by code_simp
  have n: "length (filter (\<lambda>x. is_header (snd x)) (page_lines
         [(1, ''Preface\<newline>3 Power\<newline>Overview text.''), (2, ''More text.\<newline>3.1 Power Budget'')])) = 2"
    by code_simp
  show ?thesis
    using segmenter_one_section_per_header
      [where pages = "[(1, ''Preface\<newline>3 Power\<newline>Overview text.''), (2, ''More text.\<newline>3.1 Power Budget'')]",
        THEN conjunct1]
    unfolding segs n .
qed

text \<open>
  C2 fails: a second header line with the same number overwrites the entry of the title
  map.  After the lines \<open>3 First\<close> and \<open>3 Second\<close> the map holds \<open>3 Second\<close> under \<open>3\<close>.
\<close>

theorem title_map_duplicate_overwrites:
  "map_sum id (\<lambda>st. section_title_map st ''3'')
     (parse_run [(1, ''3 First'' @ [CHR 0x0A] @ ''3 Second'')]) = Inr (Some ''3 Second'')"
  by code_simp

text \<open>
  C2 as amended: the entry of a section id is written whenever a header line with that id
  is recognized, over the entry that is there, and no other line changes the map.  After
  the stream the map holds, for each id, the full name of the last header line with that
  id (\<open>map_of\<close> takes the first pair of the reversed list of the headers), and nothing for
  the other ids.  This holds of \<open>OCP_parser_v3.py\<close> and of \<open>ocp_parser.py\<close>.
\<close>

theorem title_map_last_occurrence:
  "(\<exists>st. parse_run pages = Inr st
      \<and> section_title_map st = map_of (rev (headers_of (page_lines pages))))
   \<and> (\<exists>st. parse_flat kp pages = Inr st
      \<and> title_map_flat st = map_of (rev (headers_of (page_lines pages))))
   \<and> (\<exists>st'. parse_line pg st line = Inr st'
      \<and> section_title_map st' =
          (case SECTION_PATTERN_match line of
             Some (n, w, t) \<Rightarrow> (section_title_map st)(n \<mapsto> n @ '' '' @ t)
           | None \<Rightarrow> section_title_map st))"
proof (intro conjI)
  obtain st' where run: "parse_stream initial_state (page_lines pages) = Inr st'"
    using parse_stream_total by blast
  obtain st'' where fin: "parse_end st' = Inr st''"
    by (simp add: parse_end_closed)
  have "section_title_map st'' = map_of (rev (headers_of (page_lines pages)))"
    using parse_stream_title_map [OF run] parse_end_title_map [OF fin]
    by (simp add: initial_state_def)
  moreover have "parse_run pages = Inr st''"
    by (simp add: parse_run_def parse_pages_stream run fin)
  ultimately show "\<exists>st. parse_run pages = Inr st
      \<and> section_title_map st = map_of (rev (headers_of (page_lines pages)))"
    by blast
next
  obtain st' where run: "parse_stream_flat kp initial_state_flat (page_lines pages) = Inr st'"
    using parse_stream_flat_total by blast
  obtain st'' where fin: "finalize_open_flat kp st' = Inr st''"
    by (simp add: finalize_open_flat_closed)
  have "title_map_flat st'' = map_of (rev (headers_of (page_lines pages)))"
    using parse_stream_flat_title_map [OF run] finalize_open_flat_title_map [OF fin]
    by (simp add: initial_state_flat_def)
  moreover have "parse_flat kp pages = Inr st''"
    by (simp add: parse_flat_def parse_pages_flat_stream run fin)
  ultimately show "\<exists>st. parse_flat kp pages = Inr st
      \<and> title_map_flat st = map_of (rev (headers_of (page_lines pages)))"
    by blast
next
  show "\<exists>st'. parse_line pg st line = Inr st'
      \<and> section_title_map st' =
          (case SECTION_PATTERN_match line of
             Some (n, w, t) \<Rightarrow> (section_title_map st)(n \<mapsto> n @ '' '' @ t)
           | None \<Rightarrow> section_title_map st)"
  proof (cases "SECTION_PATTERN_match line")
    case None
    then show ?thesis by (simp add: parse_line_other split: option.splits)
  next
    case (Some g)
    obtain n w t where "g = (n, w, t)" by (cases g)
    with Some show ?thesis by (simp add: parse_line_header)
  qed
qed

text \<open>With three header lines, two of them with the number 3.\<close>

theorem title_map_last_occurrence_witness:
  "\<exists>st. parse_run [(1, ''3 First\<newline>3.1 Sub\<newline>3 Second'')] = Inr st
     \<and> section_title_map st = map_of [(''3'', ''3 Second''), (''3.1'', ''3.1 Sub''), (''3'', ''3 First'')]"
proof -
  have hs: "rev (headers_of (page_lines [(1, ''3 First\<newline>3.1 Sub\<newline>3 Second'')])) =
      [(''3'', ''3 Second''), (''3.1'', ''3.1 Sub''), (''3'', ''3 First'')]"
    by code_simp
  show ?thesis
    using title_map_last_occurrence
      [where pages = "[(1, ''3 First\<newline>3.1 Sub\<newline>3 Second'')]", THEN conjunct1]
    unfolding hs .
qed

section \<open>The claim that the pipeline never raises\<close>

text \<open>
  C9: for every list of pages, whatever the page numbers and the texts, the pipeline
  returns its output and raises nothing, in the nested shape (\<open>parse\<close> of
  \<open>OCP_parser_v3.py\<close>) and in the flat shape (\<open>parse\<close> of \<open>ocp_parser.py\<close>), and so does
  each of its parts on every input: \<open>_finalize_section\<close>, the extraction of the
  requirements, the hierarchy.  No subscript of a list is out of range and no key of the
  title map is missing, so a line taken for a header by mistake, or an anchor matched by
  mistake, only changes the output.
\<close>

theorem pipeline_never_raises:
  "(\<exists>secs. parse pages = Inr secs)
   \<and> (\<exists>st. parse_flat kp pages = Inr st)
   \<and> (\<exists>sec. finalize_section m data = Inr sec)
   \<and> (\<exists>out. finalize_section_flat kp m store fdata = Inr out)
   \<and> (\<exists>reqs. extract_requirements_with_context ls sid h ph pg = Inr reqs)
   \<and> (\<exists>t. build_hierarchy_tree m sid = Inr t)"
  using parse_total [of pages] parse_flat_total [of kp pages]
  by (simp add: finalize_section_closed finalize_section_flat_closed extract_requirements_closed
      build_hierarchy_tree_of)

section \<open>Facts about the nearest lines\<close>

lemma shall_indices_empty: "shall_indices ls = [] \<longleftrightarrow> (\<forall>l \<in> set ls. \<not> SHALL_PATTERN_search l)"
  by (auto simp: shall_indices_def filter_empty_conv all_set_conv_all_nth)

lemma nearest_before_Suc:
  "i < length ls \<Longrightarrow>
     nearest_before ls (Suc i) = (if nonblank (ls ! i) then Some (ls ! i) else nearest_before ls i)"
  by (simp add: nearest_before_def take_Suc_conv_app_nth)

lemma nearest_before_nearest:
  "i \<le> length ls \<Longrightarrow>
     (case nearest_before ls i of
        None \<Rightarrow> \<forall>j<i. strip (ls ! j) = []
      | Some b \<Rightarrow> \<exists>j<i. b = ls ! j \<and> strip b \<noteq> [] \<and> (\<forall>k. j < k \<and> k < i \<longrightarrow> strip (ls ! k) = []))"
proof (induction i)
  case 0
  show ?case by (simp add: nearest_before_def)
next
  case (Suc i)
  then have i: "i < length ls" by simp
  show ?case
  proof (cases "nonblank (ls ! i)")
    case True
    then show ?thesis using i by (auto simp: nearest_before_Suc)
  next
    case False
    show ?thesis
    proof (cases "nearest_before ls i")
      case None
      with Suc.IH i have "\<forall>j<i. strip (ls ! j) = []" by simp
      with False have "\<forall>j<Suc i. strip (ls ! j) = []" by (simp add: less_Suc_eq)
      with None False i show ?thesis by (simp add: nearest_before_Suc)
    next
      case (Some b)
      with Suc.IH i obtain j where j: "j < i" "b = ls ! j" "strip b \<noteq> []"
        "\<forall>k. j < k \<and> k < i \<longrightarrow> strip (ls ! k) = []" by auto
      from j(4) False have "\<forall>k. j < k \<and> k < Suc i \<longrightarrow> strip (ls ! k) = []"
        by (auto simp: less_Suc_eq)
      moreover have "j < Suc i" using j(1) by simp
      ultimately have "\<exists>j<Suc i. b = ls ! j \<and> strip b \<noteq> [] \<and> (\<forall>k. j < k \<and> k < Suc i \<longrightarrow> strip (ls ! k) = [])"
        using j(2,3) by blast
      with Some False i show ?thesis by (simp add: nearest_before_Suc)
    qed
  qed
qed

lemma nearest_after_nearest:
  "(case nearest_after ls i of
      None \<Rightarrow> \<forall>j. i < j \<and> j < length ls \<longrightarrow> strip (ls ! j) = []
    | Some a \<Rightarrow> \<exists>j. i < j \<and> j < length ls \<and> a = ls ! j \<and> strip a \<noteq> []
                  \<and> (\<forall>k. i < k \<and> k < j \<longrightarrow> strip (ls ! k) = []))"
proof (cases "nearest_after ls i")
  case None
  then have no: "\<forall>x \<in> set (drop (Suc i) ls). strip x = []"
    by (auto simp: nearest_after_def find_None_iff)
  have "strip (ls ! j) = []" if "i < j" "j < length ls" for j
  proof -
    have "ls ! j = drop (Suc i) ls ! (j - Suc i)" using that by simp
    moreover have "j - Suc i < length (drop (Suc i) ls)" using that by simp
    ultimately have "ls ! j \<in> set (drop (Suc i) ls)" by (metis nth_mem)
    with no show ?thesis by blast
  qed
  with None show ?thesis by simp
next
  case (Some a)
  then obtain k where k: "k < length (drop (Suc i) ls)" "strip (drop (Suc i) ls ! k) \<noteq> []"
    "a = drop (Suc i) ls ! k" "\<forall>j<k. strip (drop (Suc i) ls ! j) = []"
    by (auto simp: nearest_after_def find_Some_iff)
  have 1: "i < Suc i + k" "Suc i + k < length ls" using k(1) by simp_all
  have 2: "a = ls ! (Suc i + k)" using k(1,3) by simp
  have 3: "strip a \<noteq> []" using k(2,3) by simp
  have 4: "strip (ls ! k') = []" if "i < k'" "k' < Suc i + k" for k'
  proof -
    have "k' - Suc i < k" using that by simp
    with k(4) have "strip (drop (Suc i) ls ! (k' - Suc i)) = []" by blast
    moreover have "drop (Suc i) ls ! (k' - Suc i) = ls ! k'" using that k(1) by simp
    ultimately show ?thesis by simp
  qed
  have "\<exists>j. i < j \<and> j < length ls \<and> a = ls ! j \<and> strip a \<noteq> []
                  \<and> (\<forall>k. i < k \<and> k < j \<longrightarrow> strip (ls ! k) = [])"
    using 1 2 3 4 by blast
  with Some show ?thesis by simp
qed

lemma map_enumerate_field:
  "(\<And>n i. f (g n i) = q i) \<Longrightarrow> map f (map (\<lambda>(n, i). g n i) (List.enumerate k is)) = map q is"
  by (induction "is" arbitrary: k) simp_all

lemma ANCHOR_match_at_Nil: "ANCHOR_match_at [] = None"
  by (simp add: ANCHOR_match_at_def ci_prefix_def)

lemma ANCHOR_search_leftmost:
  "(case ANCHOR_PATTERN_search s of
      None \<Rightarrow> \<forall>k. ANCHOR_match_at (drop k s) = None
    | Some g \<Rightarrow> \<exists>k<length s. ANCHOR_match_at (drop k s) = Some g
                  \<and> (\<forall>j<k. ANCHOR_match_at (drop j s) = None))"
proof (induction s)
  case Nil
  show ?case by (simp add: ANCHOR_match_at_Nil)
next
  case (Cons c cs)
  show ?case
  proof (cases "ANCHOR_match_at (c # cs)")
    case (Some g)
    then have "ANCHOR_match_at (drop 0 (c # cs)) = Some g
        \<and> (\<forall>j<0. ANCHOR_match_at (drop j (c # cs)) = None)" by simp
    then have "\<exists>k<length (c # cs). ANCHOR_match_at (drop k (c # cs)) = Some g
                  \<and> (\<forall>j<k. ANCHOR_match_at (drop j (c # cs)) = None)"
      by (metis length_greater_0_conv list.distinct(1))
    with Some show ?thesis by simp
  next
    case None
    show ?thesis
    proof (cases "ANCHOR_PATTERN_search cs")
      case n: None
      with Cons.IH have "\<forall>k. ANCHOR_match_at (drop k cs) = None" by simp
      with None have "ANCHOR_match_at (drop k (c # cs)) = None" for k
        by (cases k) simp_all
      with None n show ?thesis by simp
    next
      case (Some g)
      with Cons.IH obtain k where k: "k < length cs" "ANCHOR_match_at (drop k cs) = Some g"
        "\<forall>j<k. ANCHOR_match_at (drop j cs) = None" by auto
      have "ANCHOR_match_at (drop j (c # cs)) = None" if "j < Suc k" for j
        using that None k(3) by (cases j) simp_all
      with k(1,2) have "\<exists>k<length (c # cs). ANCHOR_match_at (drop k (c # cs)) = Some g
                  \<and> (\<forall>j<k. ANCHOR_match_at (drop j (c # cs)) = None)"
        by (intro exI [of _ "Suc k"]) simp
      with None Some show ?thesis by simp
    qed
  qed
qed

lemma ANCHOR_match_at_prefix: "ANCHOR_match_at s = Some g \<Longrightarrow> g = take (length g) s"
proof -
  assume a: "ANCHOR_match_at s = Some g"
  then obtain d r where dr: "drop 4 s = d # r" "\<not> is_word d" "CHR 0x29 \<in> set (d # r)"
    and g: "g = take 4 s @ takeWhile (\<lambda>c. c \<noteq> CHR 0x29) (d # r) @ [CHR 0x29]"
    and len: "4 \<le> length s"
    by (auto simp: ANCHOR_match_at_def ci_prefix_def split: if_splits list.splits)
  define body where "body = takeWhile (\<lambda>c. c \<noteq> CHR 0x29) (d # r)"
  have split: "d # r = body @ dropWhile (\<lambda>c. c \<noteq> CHR 0x29) (d # r)"
    by (simp add: body_def)
  have ne: "dropWhile (\<lambda>c. c \<noteq> CHR 0x29) (d # r) \<noteq> []"
    using dr(3) by (simp only: dropWhile_eq_Nil_conv) blast
  from hd_dropWhile [OF ne] have "hd (dropWhile (\<lambda>c. c \<noteq> CHR 0x29) (d # r)) = CHR 0x29"
    by simp
  with ne obtain rest where rest: "dropWhile (\<lambda>c. c \<noteq> CHR 0x29) (d # r) = CHR 0x29 # rest"
    by (cases "dropWhile (\<lambda>c. c \<noteq> CHR 0x29) (d # r)") simp_all
  have "s = take 4 s @ drop 4 s" by simp
  also have "drop 4 s = body @ CHR 0x29 # rest"
    using dr(1) split rest by simp
  finally have s: "s = take 4 s @ body @ [CHR 0x29] @ rest" by simp
  have "g = take 4 s @ body @ [CHR 0x29]" using g by (simp add: body_def)
  then have "take (length g) s = take (length g) (g @ rest)"
    using s by simp
  then show ?thesis by simp
qed

section \<open>The claims about the requirements\<close>

text \<open>
  C5: the requirements are the lines with a match of \<open>shall\<close>, in the order of their
  indices \<open>shall_indices\<close>, and the loops raise nothing.  For the line at index \<open>i\<close>,
  \<open>context_before\<close> holds the nearest line at an index below \<open>i\<close> whose stripped content is
  not empty, and \<open>context_after\<close> the nearest such line at an index above \<open>i\<close>: the line at
  some index \<open>j\<close>, as it is in the list, with only blank lines between \<open>j\<close> and \<open>i\<close>; each
  is empty when all the lines on that side are blank.  So each holds at most one line, a
  line of the same section.  The same holds of \<open>before_shall\<close> and \<open>after_shall\<close> of the
  records of \<open>ocp_parser.py\<close>, which are \<open>None\<close> in place of the empty list.
\<close>

theorem context_nearest_lines:
  "\<exists>reqs recs.
      extract_requirements_with_context ls sid h ph pg = Inr reqs
    \<and> flat_records_loop kp ls fdata tree ref (zip [0..<length ls] ls) [] = Inr recs
    \<and> map shall_text reqs = map ((!) ls) (shall_indices ls)
    \<and> map context_before reqs =
        map (\<lambda>i. case nearest_before ls i of None \<Rightarrow> [] | Some b \<Rightarrow> [b]) (shall_indices ls)
    \<and> map context_after reqs =
        map (\<lambda>i. case nearest_after ls i of None \<Rightarrow> [] | Some a \<Rightarrow> [a]) (shall_indices ls)
    \<and> map before_shall recs = map (nearest_before ls) (shall_indices ls)
    \<and> map after_shall recs = map (nearest_after ls) (shall_indices ls)
    \<and> (\<forall>i\<le>length ls.
          case nearest_before ls i of
            None \<Rightarrow> \<forall>j<i. strip (ls ! j) = []
          | Some b \<Rightarrow> \<exists>j<i. b = ls ! j \<and> strip b \<noteq> []
                        \<and> (\<forall>k. j < k \<and> k < i \<longrightarrow> strip (ls ! k) = []))
    \<and> (\<forall>i.
          case nearest_after ls i of
            None \<Rightarrow> \<forall>j. i < j \<and> j < length ls \<longrightarrow> strip (ls ! j) = []
          | Some a \<Rightarrow> \<exists>j. i < j \<and> j < length ls \<and> a = ls ! j \<and> strip a \<noteq> []
                        \<and> (\<forall>k. i < k \<and> k < j \<longrightarrow> strip (ls ! k) = []))"
proof -
  have loop: "flat_records_loop kp ls fdata tree ref (zip [0..<length ls] ls) [] =
      Inr (map (flat_record_at kp ls fdata tree ref) (shall_indices ls))"
    using flat_records_loop_closed [of "[0..<length ls]" ls kp fdata tree ref "[]"]
    by (simp add: zip_upt_nth shall_indices_def)
  have 1: "map shall_text (map (\<lambda>(n, i). requirement_at ls sid h ph pg n i)
              (List.enumerate 0 (shall_indices ls))) = map ((!) ls) (shall_indices ls)"
    by (rule map_enumerate_field) (simp add: requirement_at_def)
  have 2: "map context_before (map (\<lambda>(n, i). requirement_at ls sid h ph pg n i)
              (List.enumerate 0 (shall_indices ls))) =
        map (\<lambda>i. case nearest_before ls i of None \<Rightarrow> [] | Some b \<Rightarrow> [b]) (shall_indices ls)"
    by (rule map_enumerate_field) (simp add: requirement_at_def)
  have 3: "map context_after (map (\<lambda>(n, i). requirement_at ls sid h ph pg n i)
              (List.enumerate 0 (shall_indices ls))) =
        map (\<lambda>i. case nearest_after ls i of None \<Rightarrow> [] | Some a \<Rightarrow> [a]) (shall_indices ls)"
    by (rule map_enumerate_field) (simp add: requirement_at_def)
  have 4: "map before_shall (map (flat_record_at kp ls fdata tree ref) (shall_indices ls))
      = map (nearest_before ls) (shall_indices ls)"
    by (simp add: flat_record_at_def comp_def)
  have 5: "map after_shall (map (flat_record_at kp ls fdata tree ref) (shall_indices ls))
      = map (nearest_after ls) (shall_indices ls)"
    by (simp add: flat_record_at_def comp_def)
  show ?thesis
    unfolding extract_requirements_closed loop
    using 1 2 3 4 5 nearest_before_nearest [where ls = ls] nearest_after_nearest [where ls = ls]
    by (intro exI conjI allI impI) (rule refl, rule refl, assumption+)
qed

text \<open>
  The example of the claim: for the lines \<open>A.\<close>, \<open>The system shall log events.\<close> and \<open>B.\<close>
  the requirement has \<open>A.\<close> before and \<open>B.\<close> after.
\<close>

theorem context_nearest_lines_witness:
  "\<exists>reqs. extract_requirements_with_context
       [''A.'', ''The system shall log events.'', ''B.''] ''section_1'' ''1 Logs'' None 1 = Inr reqs
     \<and> map shall_text reqs = [''The system shall log events.'']
     \<and> map context_before reqs = [[''A.'']]
     \<and> map context_after reqs = [[''B.'']]"
proof -
  have 1: "map ((!) [''A.'', ''The system shall log events.'', ''B.''])
      (shall_indices [''A.'', ''The system shall log events.'', ''B.'']) = [''The system shall log events.'']"
    by code_simp
  have 2: "map (\<lambda>i. case nearest_before [''A.'', ''The system shall log events.'', ''B.''] i of
                     None \<Rightarrow> [] | Some b \<Rightarrow> [b])
      (shall_indices [''A.'', ''The system shall log events.'', ''B.'']) = [[''A.'']]"
    by code_simp
  have 3: "map (\<lambda>i. case nearest_after [''A.'', ''The system shall log events.'', ''B.''] i of
                     None \<Rightarrow> [] | Some a \<Rightarrow> [a])
      (shall_indices [''A.'', ''The system shall log events.'', ''B.'']) = [[''B.'']]"
    by code_simp
  from context_nearest_lines
    [where ls = "[''A.'', ''The system shall log events.'', ''B.'']" and sid = "''section_1''"
       and h = "''1 Logs''" and ph = None and pg = 1 and kp = "\<lambda>l. []" and ref = 0
       and tree = "(None, None, [])"
       and fdata = "\<lparr>flat_number = ''1'', open_hierarchy = ''1 Logs'', flat_open_page_number = 1,
                     flat_lines = [''A.'', ''The system shall log events.'', ''B.'']\<rparr>"]
  obtain reqs where "extract_requirements_with_context
       [''A.'', ''The system shall log events.'', ''B.''] ''section_1'' ''1 Logs'' None 1 = Inr reqs"
    "map shall_text reqs = map ((!) [''A.'', ''The system shall log events.'', ''B.''])
      (shall_indices [''A.'', ''The system shall log events.'', ''B.''])"
    "map context_before reqs = map (\<lambda>i. case nearest_before [''A.'', ''The system shall log events.'', ''B.''] i of
                     None \<Rightarrow> [] | Some b \<Rightarrow> [b])
      (shall_indices [''A.'', ''The system shall log events.'', ''B.''])"
    "map context_after reqs = map (\<lambda>i. case nearest_after [''A.'', ''The system shall log events.'', ''B.''] i of
                     None \<Rightarrow> [] | Some a \<Rightarrow> [a])
      (shall_indices [''A.'', ''The system shall log events.'', ''B.''])"
    by (elim exE conjE)
  then show ?thesis unfolding 1 2 3 by (intro exI conjI)
qed

text \<open>
  C4: the anchor of the requirement of a line is the match that \<open>search\<close> finds in the line
  itself; when the line has no match, it is the match that \<open>search\<close> finds in the one line
  of \<open>context_after\<close>; when that has none either, or there is no such line, the anchor is
  absent (\<open>detected_anchor\<close>).  \<open>search\<close> returns the match at the leftmost position of the
  string where the pattern matches, which is the text of the string at that position, so
  of two anchors on a line the first is attached, and the second is attached to no
  requirement: every anchor attached is the leftmost match of a line.  The same holds of the
  records of \<open>ocp_parser.py\<close>.
\<close>

theorem anchor_first_match:
  "\<exists>reqs recs.
      extract_requirements_with_context ls sid h ph pg = Inr reqs
    \<and> flat_records_loop kp ls fdata tree ref (zip [0..<length ls] ls) [] = Inr recs
    \<and> map (\<lambda>r. (shall_text r, context_after r, anchor r)) reqs =
        map (\<lambda>i. (ls ! i, (case nearest_after ls i of None \<Rightarrow> [] | Some a \<Rightarrow> [a]),
                   detected_anchor (ls ! i) (nearest_after ls i))) (shall_indices ls)
    \<and> map (\<lambda>r. (after_shall r, flat_anchor r)) recs =
        map (\<lambda>i. (nearest_after ls i, detected_anchor (ls ! i) (nearest_after ls i))) (shall_indices ls)
    \<and> (\<forall>line aft. detected_anchor line aft =
          (case ANCHOR_PATTERN_search line of
             Some g \<Rightarrow> Some g
           | None \<Rightarrow> (case aft of None \<Rightarrow> None | Some a \<Rightarrow> ANCHOR_PATTERN_search a)))
    \<and> (\<forall>s. case ANCHOR_PATTERN_search s of
             None \<Rightarrow> \<forall>k. ANCHOR_match_at (drop k s) = None
           | Some g \<Rightarrow> \<exists>k<length s. ANCHOR_match_at (drop k s) = Some g
                         \<and> g = take (length g) (drop k s)
                         \<and> (\<forall>j<k. ANCHOR_match_at (drop j s) = None))"
proof -
  have loop: "flat_records_loop kp ls fdata tree ref (zip [0..<length ls] ls) [] =
      Inr (map (flat_record_at kp ls fdata tree ref) (shall_indices ls))"
    using flat_records_loop_closed [of "[0..<length ls]" ls kp fdata tree ref "[]"]
    by (simp add: zip_upt_nth shall_indices_def)
  have 1: "map (\<lambda>r. (shall_text r, context_after r, anchor r))
             (map (\<lambda>(n, i). requirement_at ls sid h ph pg n i) (List.enumerate 0 (shall_indices ls))) =
        map (\<lambda>i. (ls ! i, (case nearest_after ls i of None \<Rightarrow> [] | Some a \<Rightarrow> [a]),
                   detected_anchor (ls ! i) (nearest_after ls i))) (shall_indices ls)"
    by (rule map_enumerate_field) (simp add: requirement_at_def)
  have 2: "map (\<lambda>r. (after_shall r, flat_anchor r))
             (map (flat_record_at kp ls fdata tree ref) (shall_indices ls)) =
        map (\<lambda>i. (nearest_after ls i, detected_anchor (ls ! i) (nearest_after ls i))) (shall_indices ls)"
    by (simp add: flat_record_at_def comp_def)
  have 3: "\<forall>line aft. detected_anchor line aft =
          (case ANCHOR_PATTERN_search line of
             Some g \<Rightarrow> Some g
           | None \<Rightarrow> (case aft of None \<Rightarrow> None | Some a \<Rightarrow> ANCHOR_PATTERN_search a))"
    by (simp add: detected_anchor_def)
  have 4: "\<forall>s. case ANCHOR_PATTERN_search s of
             None \<Rightarrow> \<forall>k. ANCHOR_match_at (drop k s) = None
           | Some g \<Rightarrow> \<exists>k<length s. ANCHOR_match_at (drop k s) = Some g
                         \<and> g = take (length g) (drop k s)
                         \<and> (\<forall>j<k. ANCHOR_match_at (drop j s) = None)"
  proof
    fix s
    show "case ANCHOR_PATTERN_search s of
             None \<Rightarrow> \<forall>k. ANCHOR_match_at (drop k s) = None
           | Some g \<Rightarrow> \<exists>k<length s. ANCHOR_match_at (drop k s) = Some g
                         \<and> g = take (length g) (drop k s)
                         \<and> (\<forall>j<k. ANCHOR_match_at (drop j s) = None)"
      using ANCHOR_search_leftmost [of s] ANCHOR_match_at_prefix
      by (cases "ANCHOR_PATTERN_search s") auto
  qed
  show ?thesis
    unfolding extract_requirements_closed loop
    using 1 2 3 4
    by (intro exI conjI) (rule refl, rule refl, assumption+)
qed

text \<open>
  Two anchors on the first line: the first is attached.  The second line with \<open>shall\<close> has
  no anchor, and takes the anchor of the line after it.
\<close>

theorem anchor_first_match_witness:
  "\<exists>reqs. extract_requirements_with_context
       [''It shall hold (see A) and (see B).'', '''', ''Then X shall stop.'', ''End (see C).'']
       ''section_1'' ''1 Rules'' None 1 = Inr reqs
     \<and> map (\<lambda>r. (shall_text r, context_after r, anchor r)) reqs =
         [(''It shall hold (see A) and (see B).'', [''Then X shall stop.''], Some ''(see A)''),
          (''Then X shall stop.'', [''End (see C).''], Some ''(see C)'')]"
proof -
  have 1: "map (\<lambda>i. ([''It shall hold (see A) and (see B).'', '''', ''Then X shall stop.'', ''End (see C).''] ! i,
          (case nearest_after [''It shall hold (see A) and (see B).'', '''', ''Then X shall stop.'', ''End (see C).''] i of
             None \<Rightarrow> [] | Some a \<Rightarrow> [a]),
          detected_anchor ([''It shall hold (see A) and (see B).'', '''', ''Then X shall stop.'', ''End (see C).''] ! i)
            (nearest_after [''It shall hold (see A) and (see B).'', '''', ''Then X shall stop.'', ''End (see C).''] i)))
        (shall_indices [''It shall hold (see A) and (see B).'', '''', ''Then X shall stop.'', ''End (see C).'']) =
         [(''It shall hold (see A) and (see B).'', [''Then X shall stop.''], Some ''(see A)''),
          (''Then X shall stop.'', [''End (see C).''], Some ''(see C)'')]"
    by code_simp
  from anchor_first_match
    [where ls = "[''It shall hold (see A) and (see B).'', '''', ''Then X shall stop.'', ''End (see C).'']"
       and sid = "''section_1''" and h = "''1 Rules''" and ph = None and pg = 1
       and kp = "\<lambda>l. []" and ref = 0 and tree = "(None, None, [])"
       and fdata = "\<lparr>flat_number = ''1'', open_hierarchy = ''1 Rules'', flat_open_page_number = 1,
                     flat_lines = []\<rparr>"]
  obtain reqs where "extract_requirements_with_context
       [''It shall hold (see A) and (see B).'', '''', ''Then X shall stop.'', ''End (see C).'']
       ''section_1'' ''1 Rules'' None 1 = Inr reqs"
    "map (\<lambda>r. (shall_text r, context_after r, anchor r)) reqs =
      map (\<lambda>i. ([''It shall hold (see A) and (see B).'', '''', ''Then X shall stop.'', ''End (see C).''] ! i,
          (case nearest_after [''It shall hold (see A) and (see B).'', '''', ''Then X shall stop.'', ''End (see C).''] i of
             None \<Rightarrow> [] | Some a \<Rightarrow> [a]),
          detected_anchor ([''It shall hold (see A) and (see B).'', '''', ''Then X shall stop.'', ''End (see C).''] ! i)
            (nearest_after [''It shall hold (see A) and (see B).'', '''', ''Then X shall stop.'', ''End (see C).''] i)))
        (shall_indices [''It shall hold (see A) and (see B).'', '''', ''Then X shall stop.'', ''End (see C).''])"
    by (elim exE conjE)
  then show ?thesis unfolding 1 by (intro exI conjI)
qed

text \<open>
  C6: a section whose content lines have no match of \<open>shall\<close> gives, in the flat shape
  (\<open>_finalize_section\<close> of \<open>ocp_parser.py\<close>), exactly one record, with no sentence, no context
  and no anchor, whose metadata shows the requirement count 1, since the count is assigned
  to the shared metadata object after the record is appended; in the nested shape
  (\<open>OCP_parser_v3.py\<close>) it gives a section with an empty list of requirements.
\<close>

theorem section_without_shall:
  assumes "\<forall>l \<in> set ls. \<not> SHALL_PATTERN_search l"
    and "flat_lines fdata = ls" and "lines data = ls"
  shows "(\<exists>r store' md. finalize_section_flat kp m store fdata = Inr ([r], store')
            \<and> shall_sentence r = None \<and> before_shall r = None \<and> after_shall r = None
            \<and> flat_anchor r = None
            \<and> record_metadata store' r = Inr md \<and> flat_requirement_count md = 1)
       \<and> (\<exists>sec. finalize_section m data = Inr sec \<and> requirements sec = []
            \<and> requirement_count (metadata sec) = 0)"
proof
  have none: "shall_indices ls = []"
    using assms(1) by (simp add: shall_indices_empty)
  have recs: "flat_records_of kp m (length store) fdata =
      [\<lparr>flat_hierarchy = open_hierarchy fdata,
        flat_hierarchy_tree = flat_tree_of m (flat_number fdata),
        flat_page_number = flat_open_page_number fdata,
        shall_sentence = None, before_shall = None, after_shall = None,
        flat_anchor = None, key_phrases = [], flat_metadata = length store\<rparr>]"
    by (simp add: flat_records_of_def assms(2) none)
  show "\<exists>r store' md. finalize_section_flat kp m store fdata = Inr ([r], store')
            \<and> shall_sentence r = None \<and> before_shall r = None \<and> after_shall r = None
            \<and> flat_anchor r = None
            \<and> record_metadata store' r = Inr md \<and> flat_requirement_count md = 1"
    unfolding finalize_section_flat_closed recs
    by (simp add: record_metadata_def py_get_def flat_metadata_of_def Let_def)
  show "\<exists>sec. finalize_section m data = Inr sec \<and> requirements sec = []
            \<and> requirement_count (metadata sec) = 0"
    by (simp add: finalize_section_closed section_of_def Let_def assms(3) none)
qed

theorem section_without_shall_witness:
  "(\<exists>r store' md.
       finalize_section_flat (\<lambda>l. []) Map.empty []
         \<lparr>flat_number = ''3'', open_hierarchy = ''3 Power'', flat_open_page_number = 1,
          flat_lines = [''Overview text.'']\<rparr> = Inr ([r], store')
       \<and> shall_sentence r = None \<and> before_shall r = None \<and> after_shall r = None
       \<and> flat_anchor r = None
       \<and> record_metadata store' r = Inr md \<and> flat_requirement_count md = 1)
   \<and> (\<exists>sec. finalize_section Map.empty
         \<lparr>number = ''3'', open_title = ''Power'', full_name = ''3 Power'', open_page_number = 1,
          lines = [''Overview text.'']\<rparr> = Inr sec
       \<and> requirements sec = [] \<and> requirement_count (metadata sec) = 0)"
proof -
  have no: "\<forall>l \<in> set [''Overview text.'']. \<not> SHALL_PATTERN_search l"
    by code_simp
  show ?thesis
    by (rule section_without_shall [OF no]) simp_all
qed

section \<open>The claim about the metadata\<close>

lemma length_join: "length (join [c] ls) = sum_list (map length ls) + (length ls - 1)"
  by (induction "[c]" ls rule: join.induct) simp_all

lemma length_split_acc: "length (split_acc d cur s) = Suc (length (filter (\<lambda>c. c = d) s))"
  by (induction s arbitrary: cur) simp_all

lemma concat_split_ws_acc:
  "concat (split_ws_acc cur s) = cur @ filter (\<lambda>c. \<not> is_space c) s"
  by (induction s arbitrary: cur) simp_all

lemma split_ws_acc_tokens:
  "\<forall>c \<in> set cur. \<not> is_space c \<Longrightarrow>
     \<forall>t \<in> set (split_ws_acc cur s). t \<noteq> [] \<and> (\<forall>c \<in> set t. \<not> is_space c)"
proof (induction s arbitrary: cur)
  case Nil
  then show ?case by simp
next
  case (Cons a s)
  show ?case
  proof (cases "is_space a")
    case True
    have "\<forall>t \<in> set (split_ws_acc [] s). t \<noteq> [] \<and> (\<forall>c \<in> set t. \<not> is_space c)"
      using Cons.IH [of "[]"] by simp
    with True Cons.prems show ?thesis by auto
  next
    case False
    then have "\<forall>c \<in> set (cur @ [a]). \<not> is_space c" using Cons.prems by simp
    from Cons.IH [OF this] False show ?thesis by simp
  qed
qed

text \<open>
  C8: for every section that \<open>_finalize_section\<close> of \<open>OCP_parser_v3.py\<close> returns, which
  it does without raising, the content is the lines joined by line feeds, and the
  metadata has: \<open>content_length\<close> the number of characters of the content, that is the
  lengths of the lines and one for each line feed between them; \<open>word_count\<close> the number
  of tokens of \<open>split\<close>, which are not empty, hold no white space and together hold the
  characters of the content that are not white space; \<open>depth\<close> the number of components
  of the id between its dots, one more than the dots; \<open>has_subsections\<close> whether the id
  holds a dot; \<open>reference_count\<close> the number of matches of the anchor pattern in the whole
  content.  The same holds of \<open>_finalize_section\<close> of \<open>ocpparser3.py\<close>, whose content is the
  string the parser has accumulated and whose anchors are those of its own pattern.  The
  reference count is not the number of anchors of the requirements: in the first example
  the content has three matches and one requirement with one anchor, in the second the
  content has one match and both requirements carry it.
\<close>

theorem section_metadata_counts:
  "(\<exists>sec. finalize_section m data = Inr sec
      \<and> raw_content sec = join [CHR 0x0A] (lines data)
      \<and> content_length (metadata sec) = length (raw_content sec)
      \<and> content_length (metadata sec) = sum_list (map length (lines data)) + (length (lines data) - 1)
      \<and> word_count (metadata sec) = length (split_ws (raw_content sec))
      \<and> depth (metadata sec) = length (split_char (CHR ''.'') (number data))
      \<and> depth (metadata sec) = Suc (length (filter (\<lambda>c. c = CHR ''.'') (number data)))
      \<and> has_subsections (metadata sec) = (CHR ''.'' \<in> set (number data))
      \<and> reference_count (metadata sec) = length (ANCHOR_PATTERN_findall (raw_content sec))
      \<and> requirement_count (metadata sec) = length (requirements sec))
   \<and> (\<exists>sec. finalize_section3 m data3 = Inr sec
      \<and> raw_content3 sec = open3_content data3
      \<and> content_length (metadata3 sec) = length (raw_content3 sec)
      \<and> word_count (metadata3 sec) = length (split_ws (raw_content3 sec))
      \<and> depth (metadata3 sec) = Suc (length (filter (\<lambda>c. c = CHR ''.'') (open3_number data3)))
      \<and> has_subsections (metadata3 sec) = (CHR ''.'' \<in> set (open3_number data3))
      \<and> reference_count (metadata3 sec) = length (extract_anchors3 (raw_content3 sec))
      \<and> requirement_count (metadata3 sec) = length (shall_sentences sec))
   \<and> (\<forall>s. concat (split_ws s) = filter (\<lambda>c. \<not> is_space c) s
          \<and> (\<forall>t \<in> set (split_ws s). t \<noteq> [] \<and> (\<forall>c \<in> set t. \<not> is_space c)))
   \<and> map_sum id (\<lambda>sec. (reference_count (metadata sec), map anchor (requirements sec)))
        (finalize_section Map.empty
           \<lparr>number = ''1'', open_title = ''Rules'', full_name = ''1 Rules'', open_page_number = 1,
            lines = [''It shall hold (see A) and (see B).'', ''Note (see C).'']\<rparr>)
       = Inr (3, [Some ''(see A)''])
   \<and> map_sum id (\<lambda>sec. (reference_count (metadata sec), map anchor (requirements sec)))
        (finalize_section Map.empty
           \<lparr>number = ''1'', open_title = ''Rules'', full_name = ''1 Rules'', open_page_number = 1,
            lines = [''It shall hold.'', ''X shall stop (see A).'']\<rparr>)
       = Inr (1, [Some ''(see A)'', Some ''(see A)''])"
proof (intro conjI)
  show "\<exists>sec. finalize_section m data = Inr sec
      \<and> raw_content sec = join [CHR 0x0A] (lines data)
      \<and> content_length (metadata sec) = length (raw_content sec)
      \<and> content_length (metadata sec) = sum_list (map length (lines data)) + (length (lines data) - 1)
      \<and> word_count (metadata sec) = length (split_ws (raw_content sec))
      \<and> depth (metadata sec) = length (split_char (CHR ''.'') (number data))
      \<and> depth (metadata sec) = Suc (length (filter (\<lambda>c. c = CHR ''.'') (number data)))
      \<and> has_subsections (metadata sec) = (CHR ''.'' \<in> set (number data))
      \<and> reference_count (metadata sec) = length (ANCHOR_PATTERN_findall (raw_content sec))
      \<and> requirement_count (metadata sec) = length (requirements sec)"
    by (simp add: finalize_section_closed section_of_def Let_def length_join split_char_def
        length_split_acc)
  show "\<exists>sec. finalize_section3 m data3 = Inr sec
      \<and> raw_content3 sec = open3_content data3
      \<and> content_length (metadata3 sec) = length (raw_content3 sec)
      \<and> word_count (metadata3 sec) = length (split_ws (raw_content3 sec))
      \<and> depth (metadata3 sec) = Suc (length (filter (\<lambda>c. c = CHR ''.'') (open3_number data3)))
      \<and> has_subsections (metadata3 sec) = (CHR ''.'' \<in> set (open3_number data3))
      \<and> reference_count (metadata3 sec) = length (extract_anchors3 (raw_content3 sec))
      \<and> requirement_count (metadata3 sec) = length (shall_sentences sec)"
    by (simp add: finalize_section3_def build_hierarchy_tree_of Let_def split_char_def
        length_split_acc)
  show "\<forall>s. concat (split_ws s) = filter (\<lambda>c. \<not> is_space c) s
          \<and> (\<forall>t \<in> set (split_ws s). t \<noteq> [] \<and> (\<forall>c \<in> set t. \<not> is_space c))"
    using split_ws_acc_tokens [of "[]"] by (simp add: split_ws_def concat_split_ws_acc)
  show "map_sum id (\<lambda>sec. (reference_count (metadata sec), map anchor (requirements sec)))
        (finalize_section Map.empty
           \<lparr>number = ''1'', open_title = ''Rules'', full_name = ''1 Rules'', open_page_number = 1,
            lines = [''It shall hold (see A) and (see B).'', ''Note (see C).'']\<rparr>)
       = Inr (3, [Some ''(see A)''])"
    by code_simp
  show "map_sum id (\<lambda>sec. (reference_count (metadata sec), map anchor (requirements sec)))
        (finalize_section Map.empty
           \<lparr>number = ''1'', open_title = ''Rules'', full_name = ''1 Rules'', open_page_number = 1,
            lines = [''It shall hold.'', ''X shall stop (see A).'']\<rparr>)
       = Inr (1, [Some ''(see A)'', Some ''(see A)''])"
    by code_simp
qed

theorem section_metadata_counts_witness:
  "\<exists>sec. finalize_section Map.empty
       \<lparr>number = ''3.2.1'', open_title = ''Rules'', full_name = ''3.2.1 Rules'', open_page_number = 4,
        lines = [''It shall hold (see A).'', [], ''  Two  words '']\<rparr> = Inr sec
     \<and> raw_content sec = ''It shall hold (see A).\<newline>\<newline>  Two  words ''
     \<and> content_length (metadata sec) = 37
     \<and> word_count (metadata sec) = 7
     \<and> depth (metadata sec) = 3
     \<and> has_subsections (metadata sec)
     \<and> reference_count (metadata sec) = 1"
proof -
  define data where "data = \<lparr>number = ''3.2.1'', open_title = ''Rules'', full_name = ''3.2.1 Rules'',
        open_page_number = 4, lines = [''It shall hold (see A).'', [], ''  Two  words '']\<rparr>"
  obtain sec where sec: "finalize_section Map.empty data = Inr sec"
    "raw_content sec = join [CHR 0x0A] (lines data)"
    "content_length (metadata sec) = sum_list (map length (lines data)) + (length (lines data) - 1)"
    "word_count (metadata sec) = length (split_ws (raw_content sec))"
    "depth (metadata sec) = Suc (length (filter (\<lambda>c. c = CHR ''.'') (number data)))"
    "has_subsections (metadata sec) = (CHR ''.'' \<in> set (number data))"
    "reference_count (metadata sec) = length (ANCHOR_PATTERN_findall (raw_content sec))"
    using section_metadata_counts [where m = Map.empty and data = data, THEN conjunct1] by blast
  have raw: "raw_content sec = ''It shall hold (see A).\<newline>\<newline>  Two  words ''"
    unfolding sec(2) by (simp add: data_def)
  have wc: "length (split_ws ''It shall hold (see A).\<newline>\<newline>  Two  words '') = 7"
    by code_simp
  have rc: "length (ANCHOR_PATTERN_findall ''It shall hold (see A).\<newline>\<newline>  Two  words '') = 1"
    by code_simp
  have "content_length (metadata sec) = 37"
    unfolding sec(3) by (simp add: data_def)
  moreover have "word_count (metadata sec) = 7"
    unfolding sec(4) raw by (rule wc)
  moreover have "depth (metadata sec) = 3"
    unfolding sec(5) by (simp add: data_def)
  moreover have "has_subsections (metadata sec)"
    unfolding sec(6) by (simp add: data_def)
  moreover have "reference_count (metadata sec) = 1"
    unfolding sec(7) raw by (rule rc)
  ultimately show ?thesis using sec(1) raw unfolding data_def by blast
qed

section \<open>The end-to-end example\<close>

text \<open>
  C7 as amended: for the five lines of the example on page 1, \<open>parse\<close> of
  \<open>OCP_parser_v3.py\<close> returns exactly two sections, of the headers with the numbers \<open>3\<close> and
  \<open>3.1\<close>; the parent of the second is \<open>3 Power\<close>; it has exactly one requirement, whose
  text holds \<open>shall report power budget\<close>, whose \<open>context_before\<close> is empty, whose
  \<open>context_after\<close> is \<open>End text.\<close>, and whose anchor is \<open>(see Section 3.2)\<close>, the match of
  the pattern of this variant, which takes an anchor in parentheses only.
\<close>

theorem end_to_end_example:
  "parse [(1, ''3 Power\<newline>Overview text.\<newline>3.1 Power Budget\<newline>The controller shall report power budget. (see Section 3.2)\<newline>End text.'')]
     = Inr [\<lparr>section_id = ''section_3'', section_hierarchy = ''3 Power'',
               hierarchy_tree = \<lparr>current = ''3 Power'', parent = None, grandparent = None,
                                  ancestors = []\<rparr>,
               title = ''Power'', requirements = [], section_page_number = 1,
               metadata = \<lparr>content_length = 14, requirement_count = 0, reference_count = 0,
                            has_subsections = False, depth = 1, word_count = 2\<rparr>,
               raw_content = ''Overview text.''\<rparr>,
            \<lparr>section_id = ''section_3_1'', section_hierarchy = ''3.1 Power Budget'',
               hierarchy_tree = \<lparr>current = ''3.1 Power Budget'', parent = Some ''3 Power'',
                                  grandparent = None, ancestors = [''3 Power'']\<rparr>,
               title = ''Power Budget'',
               requirements =
                 [\<lparr>requirement_id = ''section_3_1_req_1'',
                    shall_text = ''The controller shall report power budget. (see Section 3.2)'',
                    context_before = [], context_after = [''End text.''],
                    anchor = Some ''(see Section 3.2)'', page_number = 1,
                    hierarchy = ''3.1 Power Budget'', parent_hierarchy = Some ''3 Power''\<rparr>],
               section_page_number = 1,
               metadata = \<lparr>content_length = 69, requirement_count = 1, reference_count = 1,
                            has_subsections = True, depth = 2, word_count = 11\<rparr>,
               raw_content = ''The controller shall report power budget. (see Section 3.2)\<newline>End text.''\<rparr>]
   \<and> map (\<lambda>g. fst (snd g)) (segments (page_lines
         [(1, ''3 Power\<newline>Overview text.\<newline>3.1 Power Budget\<newline>The controller shall report power budget. (see Section 3.2)\<newline>End text.'')]))
       = [''3'', ''3.1'']
   \<and> ''The controller shall report power budget. (see Section 3.2)''
       = ''The controller '' @ ''shall report power budget'' @ ''. (see Section 3.2)''
   \<and> ANCHOR_PATTERN_search ''The controller shall report power budget. (see Section 3.2)''
       = Some ''(see Section 3.2)''"
  by code_simp

text \<open>
  C7 fails as stated: with the pattern of \<open>ocpparser3.py\<close>, which takes \<open>see\<close> anywhere and
  stops at a full stop, the anchor found in the content of section \<open>3.1\<close> is
  \<open>see Section 3\<close>, and \<open>(see Section 3.2)\<close> is not found.
\<close>

theorem loose_anchor_of_example:
  "extract_anchors3 ''The controller shall report power budget. (see Section 3.2)\<newline>End text.\<newline>''
     = [''see Section 3'']
   \<and> map_sum id anchors (finalize_section3 [''3'' \<mapsto> ''3 Power'', ''3.1'' \<mapsto> ''3.1 Power Budget'']
        \<lparr>open3_number = ''3.1'', open3_title = ''Power Budget'', open3_full_name = ''3.1 Power Budget'',
         open3_page_number = 1,
         open3_content = ''The controller shall report power budget. (see Section 3.2)\<newline>End text.\<newline>''\<rparr>)
     = Inr [''see Section 3'']"
  by code_simp

section \<open>The claim about the sentences of \<open>OCP_parser.py\<close>\<close>

lemma fromkeys_acc_snoc:
  "fromkeys_acc seen (xs @ [x]) =
     (if x \<in> set (fromkeys_acc seen xs) then fromkeys_acc seen xs else fromkeys_acc seen xs @ [x])"
  by (induction xs arbitrary: seen) simp_all

lemma set_fromkeys_acc: "set (fromkeys_acc seen xs) = set seen \<union> set xs"
  by (induction xs arbitrary: seen) auto

lemma dict_fromkeys_remdups: "dict_fromkeys xs = rev (remdups (rev xs))"
proof (induction xs rule: rev_induct)
  case Nil
  show ?case by (simp add: dict_fromkeys_def)
next
  case (snoc x xs)
  have "set (fromkeys_acc [] xs) = set xs" by (simp add: set_fromkeys_acc)
  with snoc show ?case
    by (simp add: dict_fromkeys_def fromkeys_acc_snoc)
qed

text \<open>
  C10: \<open>extract_shall_sentences\<close> of \<open>OCP_parser.py\<close> returns the stripped matches of the
  sentence pattern that are longer than 15 characters, each once, at the place of its first
  occurrence (\<open>remdups\<close> keeps the last occurrence of each element, so on the reversed
  list it keeps the first).  The \<open>requirement_count\<close> of a section is therefore the number
  of distinct such sentences of its stripped content: it is 0 when every match is 15
  characters or shorter, and a sentence that is repeated counts once.
\<close>

theorem extract_shall_sentences_distinct_long:
  "extract_shall_sentences content = rev (remdups (rev (qualifying content)))
   \<and> set (extract_shall_sentences content)
       = strip ` {s \<in> set (SHALL_sentence_findall content). 15 < length (strip s)}
   \<and> distinct (extract_shall_sentences content)
   \<and> shall_sentences (finalize_section_OCP_parser ea kp d)
       = extract_shall_sentences (strip (ocp_content d))
   \<and> requirement_count (metadata3 (finalize_section_OCP_parser ea kp d))
       = card (strip ` {s \<in> set (SHALL_sentence_findall (strip (ocp_content d))). 15 < length (strip s)})
   \<and> ((\<forall>s \<in> set (SHALL_sentence_findall (strip (ocp_content d))). length (strip s) \<le> 15)
        \<longrightarrow> requirement_count (metadata3 (finalize_section_OCP_parser ea kp d)) = 0)"
proof -
  have e: "extract_shall_sentences t = rev (remdups (rev (qualifying t)))" for t
    by (simp add: extract_shall_sentences_def qualifying_def dict_fromkeys_remdups)
  have q: "set (qualifying t) = strip ` {s \<in> set (SHALL_sentence_findall t). 15 < length (strip s)}" for t
    by (auto simp: qualifying_def)
  have s: "set (extract_shall_sentences t)
       = strip ` {s \<in> set (SHALL_sentence_findall t). 15 < length (strip s)}" for t
    by (simp add: e q)
  have dist: "distinct (extract_shall_sentences t)" for t
    by (simp add: e)
  have sh: "shall_sentences (finalize_section_OCP_parser ea kp d)
       = extract_shall_sentences (strip (ocp_content d))"
    by (simp add: finalize_section_OCP_parser_def Let_def)
  have rc: "requirement_count (metadata3 (finalize_section_OCP_parser ea kp d))
       = length (extract_shall_sentences (strip (ocp_content d)))"
    by (simp add: finalize_section_OCP_parser_def Let_def)
  have card: "requirement_count (metadata3 (finalize_section_OCP_parser ea kp d))
       = card (strip ` {s \<in> set (SHALL_sentence_findall (strip (ocp_content d))). 15 < length (strip s)})"
    unfolding rc using distinct_card [OF dist [of "strip (ocp_content d)"]] by (simp only: s)
  have zero: "requirement_count (metadata3 (finalize_section_OCP_parser ea kp d)) = 0"
    if "\<forall>s \<in> set (SHALL_sentence_findall (strip (ocp_content d))). length (strip s) \<le> 15"
  proof -
    from that have "{s \<in> set (SHALL_sentence_findall (strip (ocp_content d))). 15 < length (strip s)} = {}"
      by (auto simp: not_less [symmetric])
    then show ?thesis unfolding card by simp
  qed
  show ?thesis using e s dist sh card zero by blast
qed

text \<open>
  A section whose only sentence has 13 characters, and a text with the same sentence twice.
\<close>

theorem extract_shall_sentences_distinct_long_witness:
  "SHALL_sentence_findall ''It shall run.'' = [''It shall run.'']
   \<and> requirement_count (metadata3 (finalize_section_OCP_parser (\<lambda>t. []) (\<lambda>t. [])
        \<lparr>ocp_hierarchy = ''3'', ocp_title = ''Power'', ocp_page_number = 1,
         ocp_content = ''It shall run.\<newline>'', ocp_start_page = 1\<rparr>)) = 0
   \<and> SHALL_sentence_findall ''The unit shall comply now. The unit shall comply now.''
       = [''The unit shall comply now.'', '' The unit shall comply now.'']
   \<and> extract_shall_sentences ''The unit shall comply now. The unit shall comply now.''
       = [''The unit shall comply now.'']"
proof -
  define d where "d = \<lparr>ocp_hierarchy = ''3'', ocp_title = ''Power'', ocp_page_number = 1,
         ocp_content = ''It shall run.\<newline>'', ocp_start_page = 1\<rparr>"
  have c: "strip (ocp_content d) = ''It shall run.''"
    unfolding d_def by code_simp
  have f: "SHALL_sentence_findall ''It shall run.'' = [''It shall run.'']"
    by code_simp
  have short: "\<forall>s \<in> set (SHALL_sentence_findall (strip (ocp_content d))). length (strip s) \<le> 15"
    unfolding c f by code_simp
  have zero: "requirement_count (metadata3 (finalize_section_OCP_parser (\<lambda>t. []) (\<lambda>t. []) d)) = 0"
    using extract_shall_sentences_distinct_long [where d = d and ea = "\<lambda>t. []" and kp = "\<lambda>t. []"] short
    by blast
  have f2: "SHALL_sentence_findall ''The unit shall comply now. The unit shall comply now.''
       = [''The unit shall comply now.'', '' The unit shall comply now.'']"
    by code_simp
  have q2: "rev (remdups (rev (qualifying ''The unit shall comply now. The unit shall comply now.'')))
      = [''The unit shall comply now.'']"
    by code_simp
  have e2: "extract_shall_sentences ''The unit shall comply now. The unit shall comply now.''
       = [''The unit shall comply now.'']"
    using extract_shall_sentences_distinct_long
      [where content = "''The unit shall comply now. The unit shall comply now.''", THEN conjunct1]
    unfolding q2 .
  show ?thesis using f zero f2 e2 unfolding d_def by (intro conjI)
qed

section \<open>Facts about the lines of a page\<close>

text \<open>
  No line of \<open>splitlines\<close> holds a line break, in particular no line feed: this is what
  \<open>SECTION_PATTERN_match\<close> relies on when it lets \<open>.\<close> match every character of a line.
\<close>

lemma splitlines_acc_no_linebreak:
  "\<forall>c \<in> set cur. \<not> is_linebreak c \<Longrightarrow>
     \<forall>l \<in> set (splitlines_acc cur s). \<forall>c \<in> set l. \<not> is_linebreak c"
proof (induction cur s rule: splitlines_acc.induct)
  case (1 cur)
  then show ?case by simp
next
  case (2 cur c cs)
  show ?case
  proof (cases "c = CHR 0x0D")
    case True
    show ?thesis
    proof (cases cs)
      case Nil
      have step: "splitlines_acc cur (c # cs) = [cur]"
        by (subst splitlines_acc.simps) (simp add: True Nil)
      show ?thesis unfolding step using "2.prems" by simp
    next
      case (Cons d ds)
      show ?thesis
      proof (cases "d = CHR 0x0A")
        case lf: True
        have step: "splitlines_acc cur (c # cs) = cur # splitlines_acc [] ds"
          by (subst splitlines_acc.simps) (simp add: True Cons lf del: splitlines_acc.simps)
        have "\<forall>l \<in> set (splitlines_acc [] ds). \<forall>c \<in> set l. \<not> is_linebreak c"
          using "2.IH"(2) [OF True Cons lf] by simp
        then show ?thesis unfolding step using "2.prems" by simp
      next
        case nlf: False
        have step: "splitlines_acc cur (c # cs) = cur # splitlines_acc [] cs"
          by (subst splitlines_acc.simps) (simp add: True Cons nlf del: splitlines_acc.simps)
        have "\<forall>l \<in> set (splitlines_acc [] cs). \<forall>c \<in> set l. \<not> is_linebreak c"
          using "2.IH"(3) [OF True Cons nlf] by simp
        then show ?thesis unfolding step using "2.prems" by simp
      qed
    qed
  next
    case False
    show ?thesis
    proof (cases "is_linebreak c")
      case True
      have step: "splitlines_acc cur (c # cs) = cur # splitlines_acc [] cs"
        by (subst splitlines_acc.simps) (simp add: False True del: splitlines_acc.simps)
      have "\<forall>l \<in> set (splitlines_acc [] cs). \<forall>c \<in> set l. \<not> is_linebreak c"
        using "2.IH"(4) [OF False True] by simp
      then show ?thesis unfolding step using "2.prems" by simp
    next
      case nb: False
      have step: "splitlines_acc cur (c # cs) = splitlines_acc (cur @ [c]) cs"
        by (subst splitlines_acc.simps) (simp add: False nb del: splitlines_acc.simps)
      have "\<forall>c \<in> set (cur @ [c]). \<not> is_linebreak c"
        using "2.prems" nb by simp
      from "2.IH"(5) [OF False nb this] show ?thesis unfolding step .
    qed
  qed
qed

lemma splitlines_no_line_feed:
  "l \<in> set (splitlines s) \<Longrightarrow> CHR 0x0A \<notin> set l"
proof -
  assume "l \<in> set (splitlines s)"
  then have "\<forall>c \<in> set l. \<not> is_linebreak c"
    using splitlines_acc_no_linebreak [of "[]" s] by (simp add: splitlines_def)
  moreover have "is_linebreak (CHR 0x0A)" by (simp add: is_linebreak_def)
  ultimately show ?thesis by blast
qed

end
